theory Spec2Isabelle
  imports Main "HOL-Library.AList"
begin

section \<open>JavaScript strings\<close>

text \<open>
  A JavaScript string is modelled as a \<^typ>\<open>string\<close>. The documents, subjects and
  templates of the claims are ASCII text; a character beyond ASCII stands for one byte of
  its UTF-8 encoding and is never white space, a letter or a digit (JavaScript also counts
  a few code points beyond ASCII as white space; such text is outside this model).
\<close>

definition isWhitespace :: "char \<Rightarrow> bool" where
  \<comment> \<open>the ASCII members of the regular expression class \<open>\s\<close>, which are also what
      \<open>String.prototype.trim\<close> strips\<close>
  "isWhitespace c = (c \<in> set [CHR 0x09, CHR 0x0A, CHR 0x0B, CHR 0x0C, CHR 0x0D, CHR 0x20])"

definition trimStart :: "string \<Rightarrow> string" where
  "trimStart s = dropWhile isWhitespace s"

definition trimEnd :: "string \<Rightarrow> string" where
  "trimEnd s = rev (dropWhile isWhitespace (rev s))"

definition trim :: "string \<Rightarrow> string" where
  "trim s = trimEnd (trimStart s)"

definition startsWith :: "string \<Rightarrow> string \<Rightarrow> bool" where
  "startsWith s p = (take (length p) s = p)"

section \<open>Document segmenter\<close>

record rawLine =
  line_text :: string
  lineNumber :: nat

datatype natsDocumentSegment = Delimiter rawLine | Block "rawLine list"

text \<open>\<open>text.split(/\r?\n/)\<close>: the separators are found from the left, each a line feed
  with the carriage return before it when there is one. The result is never empty.\<close>

fun splitLines :: "string \<Rightarrow> string list" where
  "splitLines [] = [[]]"
| "splitLines [c] = (if c = CHR 0x0A then [[], []] else [[c]])"
| "splitLines (c # d # cs) =
     (if c = CHR 0x0D \<and> d = CHR 0x0A then [] # splitLines cs
      else if c = CHR 0x0A then [] # splitLines (d # cs)
      else (case splitLines (d # cs) of
              [] \<Rightarrow> [[c]]
            | l # ls \<Rightarrow> (c # l) # ls))"

definition isBlockDelimiter :: "string \<Rightarrow> bool" where
  \<comment> \<open>\<open>BLOCK_DELIMITER = /^\s*#{3,}\s*$/\<close>\<close>
  "isBlockDelimiter s =
     (let t = dropWhile isWhitespace s;
          hashes = takeWhile (\<lambda>c. c = CHR ''#'') t;
          rest = dropWhile (\<lambda>c. c = CHR ''#'') t
      in 3 \<le> length hashes \<and> list_all isWhitespace rest)"

definition flushBlock :: "natsDocumentSegment list \<times> rawLine list
    \<Rightarrow> natsDocumentSegment list \<times> rawLine list" where
  "flushBlock st =
     (case st of (segments, current) \<Rightarrow>
        if 0 < length current then (segments @ [Block current], []) else (segments, current))"

text \<open>The body of the \<open>for\<close> loop of \<open>segmentNatsDocument\<close>, over the lines from
  \<open>index\<close> on; the state is the pair of \<open>segments\<close> and \<open>current\<close>.\<close>

fun segmentLoop :: "nat \<Rightarrow> string list
    \<Rightarrow> natsDocumentSegment list \<times> rawLine list
    \<Rightarrow> natsDocumentSegment list \<times> rawLine list" where
  "segmentLoop index [] st = st"
| "segmentLoop index (raw # lines) st =
     (if isBlockDelimiter raw then
        (case flushBlock st of (segments, current) \<Rightarrow>
           segmentLoop (index + 1) lines
             (segments @ [Delimiter \<lparr>line_text = raw, lineNumber = index\<rparr>], current))
      else
        (case st of (segments, current) \<Rightarrow>
           segmentLoop (index + 1) lines
             (segments, current @ [\<lparr>line_text = raw, lineNumber = index\<rparr>])))"

definition segmentNatsDocument :: "string \<Rightarrow> natsDocumentSegment list" where
  "segmentNatsDocument doc =
     (let lines = splitLines doc;
          segments = fst (flushBlock (segmentLoop 0 lines ([], [])))
      in if length segments = 0 then [Block []] else segments)"

fun segmentLines :: "natsDocumentSegment \<Rightarrow> rawLine list" where
  "segmentLines (Delimiter l) = [l]"
| "segmentLines (Block ls) = ls"

definition numberedLines :: "nat \<Rightarrow> string list \<Rightarrow> rawLine list" where
  "numberedLines start ls =
     map (\<lambda>(i, t). \<lparr>line_text = t, lineNumber = i\<rparr>) (zip [start ..< start + length ls] ls)"

section \<open>Block parser\<close>

datatype error =
    URIError \<comment> \<open>thrown by \<open>decodeURIComponent\<close>\<close>
  | InvalidUrl \<comment> \<open>the \<open>TypeError\<close> of \<open>new URL\<close>\<close>
  | Error string \<comment> \<open>\<open>new Error(message)\<close>, and a failure of a collaborator, by its message\<close>

datatype natsActionType = Subscribe | Request | Publish | Reply | JetstreamPull

type_synonym headerMap = "(string \<times> string) list"

record natsAction =
  action_type :: natsActionType
  action_subject :: string
  action_lineNumber :: nat
  action_server :: "string option"
  action_data :: "string option"
  action_template :: "string option"
  action_stream :: "string option"
  action_durable :: "string option"
  action_batchSize :: "int option"
  action_timeoutMs :: "int option"
  action_headers :: "headerMap option"

text \<open>The fields of a WHATWG \<open>URL\<close> object that the program reads. The URL parser
  belongs to the JavaScript runtime: the functions below take it as the parameter
  \<open>newURL\<close>, with \<open>None\<close> where \<open>new URL(value)\<close> throws. \<open>randomUUID\<close> is a
  parameter as well: \<open>gen n\<close> is the identifier of the \<open>n\<close>-th call, and the number of
  calls made so far is threaded through the parser.\<close>

record url =
  url_protocol :: string
  url_username :: string
  url_password :: string
  url_hostname :: string
  url_port :: string
  url_pathname :: string

definition charCode :: "char \<Rightarrow> nat" where
  "charCode c = of_char c"

definition toUpperChar :: "char \<Rightarrow> char" where
  "toUpperChar c =
     (if charCode CHR ''a'' \<le> charCode c \<and> charCode c \<le> charCode CHR ''z'' then char_of (charCode c - 32) else c)"

definition toLowerChar :: "char \<Rightarrow> char" where
  "toLowerChar c =
     (if charCode CHR ''A'' \<le> charCode c \<and> charCode c \<le> charCode CHR ''Z'' then char_of (charCode c + 32) else c)"

definition toUpperCase :: "string \<Rightarrow> string" where
  "toUpperCase s = map toUpperChar s"

definition toLowerCase :: "string \<Rightarrow> string" where
  "toLowerCase s = map toLowerChar s"

definition isDigit :: "char \<Rightarrow> bool" where
  "isDigit c = (charCode CHR ''0'' \<le> charCode c \<and> charCode c \<le> charCode CHR ''9'')"

definition isAlpha :: "char \<Rightarrow> bool" where
  "isAlpha c = ((charCode CHR ''a'' \<le> charCode c \<and> charCode c \<le> charCode CHR ''z'') \<or> (charCode CHR ''A'' \<le> charCode c \<and> charCode c \<le> charCode CHR ''Z''))"

definition falsy :: "string option \<Rightarrow> bool" where
  \<comment> \<open>\<open>!value\<close> for a value that is a string or \<open>undefined\<close>\<close>
  "falsy v = (case v of None \<Rightarrow> True | Some s \<Rightarrow> s = [])"

definition isComment :: "string \<Rightarrow> bool" where
  \<comment> \<open>\<open>COMMENT_PATTERN = /^\s*(#|\/\/)/\<close>\<close>
  "isComment s =
     (let t = dropWhile isWhitespace s in startsWith t ''#'' \<or> startsWith t ''//'')"

definition isHeaderKey :: "string \<Rightarrow> bool" where
  \<comment> \<open>\<open>HEADER_KEY_PATTERN = /^[A-Za-z0-9-]+$/\<close>\<close>
  "isHeaderKey k =
     (k \<noteq> [] \<and> list_all (\<lambda>c. isAlpha c \<or> isDigit c \<or> c = CHR ''-'') k)"

definition META_HEADERS :: "string list" where
  "META_HEADERS = [''nats-server'', ''nats-timeout'', ''nats-stream'', ''nats-durable'',
     ''nats-batch'', ''nats-reply-mode'', ''nats-subject'']"

definition SUPPORTED_PROTOCOLS :: "string list" where
  "SUPPORTED_PROTOCOLS = [''nats:'', ''tls:'', ''ws:'', ''wss:'']"

definition firstToken :: "string \<Rightarrow> string" where
  \<comment> \<open>\<open>s.split(/\s+/, 1)[0]\<close>\<close>
  "firstToken s = takeWhile (\<lambda>c. \<not> isWhitespace c) s"

definition mapKeyword :: "string \<Rightarrow> natsActionType option" where
  "mapKeyword keyword =
     (let upper = toUpperCase keyword in
      if upper = ''SUBSCRIBE'' then Some Subscribe
      else if upper = ''REQUEST'' then Some Request
      else if upper = ''PUBLISH'' then Some Publish
      else if upper = ''REPLY'' then Some Reply
      else if upper = ''JETSTREAM'' then Some JetstreamPull
      else None)"

function sanitizeRandomIds :: "(nat \<Rightarrow> string) \<Rightarrow> nat \<Rightarrow> string \<Rightarrow> string \<times> nat" where
  "sanitizeRandomIds gen n s =
     (case s of
        [] \<Rightarrow> ([], n)
      | c # cs \<Rightarrow>
          if toLowerCase (take 10 s) = ''randomid()'' then
            (case sanitizeRandomIds gen (n + 1) (drop 10 s) of
               (r, n') \<Rightarrow> ([CHR 0x22] @ gen n @ [CHR 0x22] @ r, n'))
          else
            (case sanitizeRandomIds gen n cs of (r, n') \<Rightarrow> (c # r, n')))"
  by pat_completeness auto
termination
  by (relation "measure (\<lambda>(gen, n, s). length s)") auto

declare sanitizeRandomIds.simps [simp del]

fun findRequestLineLoop :: "nat \<Rightarrow> rawLine list \<Rightarrow> nat option" where
  "findRequestLineLoop index [] = None"
| "findRequestLineLoop index (l # rest) =
     (let trimmed = trim (line_text l) in
      if length trimmed = 0 then findRequestLineLoop (index + 1) rest
      else if isComment trimmed \<or> startsWith trimmed ''@'' then
        findRequestLineLoop (index + 1) rest
      else if mapKeyword (firstToken trimmed) \<noteq> None then Some index
      else None)"

definition findRequestLineIndex :: "rawLine list \<Rightarrow> nat option" where
  \<comment> \<open>\<open>None\<close> stands for the result \<open>-1\<close>\<close>
  "findRequestLineIndex lines = findRequestLineLoop 0 lines"

fun indexOf :: "string \<Rightarrow> char \<Rightarrow> nat option" where
  "indexOf [] ch = None"
| "indexOf (c # cs) ch = (if c = ch then Some 0 else map_option Suc (indexOf cs ch))"

text \<open>The \<open>while\<close> loop of \<open>parseHeaders\<close>; \<open>remaining\<close> holds the lines from
  \<open>index\<close> on. The result is \<open>headers\<close>, \<open>nextIndex\<close> and the identifier count.\<close>

fun parseHeadersLoop :: "(nat \<Rightarrow> string) \<Rightarrow> nat \<Rightarrow> nat \<Rightarrow> rawLine list \<Rightarrow> headerMap
    \<Rightarrow> headerMap \<times> nat \<times> nat" where
  "parseHeadersLoop gen n index [] headers = (headers, index, n)"
| "parseHeadersLoop gen n index (l # rest) headers =
     (let raw = line_text l; trimmed = trim raw in
      if length trimmed = 0 then (headers, index + 1, n)
      else if isComment trimmed then parseHeadersLoop gen n (index + 1) rest headers
      else
        (case indexOf raw CHR '':'' of
           None \<Rightarrow> (headers, index, n)
         | Some separator \<Rightarrow>
             let key = trim (take separator raw) in
             if \<not> isHeaderKey key then (headers, index, n)
             else
               (case sanitizeRandomIds gen n (trim (drop (separator + 1) raw)) of
                  (v, n') \<Rightarrow>
                    parseHeadersLoop gen n' (index + 1) rest (headers @ [(key, v)]))))"

definition parseHeaders :: "(nat \<Rightarrow> string) \<Rightarrow> nat \<Rightarrow> rawLine list \<Rightarrow> nat
    \<Rightarrow> headerMap \<times> nat \<times> nat" where
  "parseHeaders gen n lines startIndex =
     parseHeadersLoop gen n startIndex (drop startIndex lines) []"

fun joinLines :: "string list \<Rightarrow> string" where
  \<comment> \<open>\<open>bodyLines.join("\n")\<close>\<close>
  "joinLines [] = []"
| "joinLines [l] = l"
| "joinLines (l # ls) = l @ [CHR 0x0A] @ joinLines ls"

definition isBlank :: "string \<Rightarrow> bool" where
  "isBlank l = (length (trim l) = 0)"

definition collectBody :: "(nat \<Rightarrow> string) \<Rightarrow> nat \<Rightarrow> rawLine list \<Rightarrow> nat
    \<Rightarrow> string option \<times> nat" where
  "collectBody gen n lines startIndex =
     (if length lines \<le> startIndex then (None, n)
      else
        let bodyLines = map line_text (drop startIndex lines);
            shifted = dropWhile isBlank bodyLines;
            popped = rev (dropWhile isBlank (rev shifted))
        in if length popped = 0 then (None, n)
           else (case sanitizeRandomIds gen n (joinLines popped) of (b, n') \<Rightarrow> (Some b, n')))"

text \<open>The loop of \<open>partitionHeaders\<close>. The forwarded headers are a JavaScript object
  and the metadata a \<open>Map\<close>; both are association lists here, in the order of first
  assignment (the claims do not depend on the order of the keys).\<close>

definition digitsValue :: "string \<Rightarrow> nat" where
  "digitsValue ds = foldl (\<lambda>a c. 10 * a + (charCode c - 48)) 0 ds"

fun partitionLoop :: "headerMap \<Rightarrow> headerMap \<times> headerMap \<Rightarrow> headerMap \<times> headerMap" where
  "partitionLoop [] st = st"
| "partitionLoop ((key, v) # entries) (headers, meta) =
     (let lower = toLowerCase key in
      if lower \<in> set META_HEADERS then
        partitionLoop entries (headers, AList.update lower v meta)
      else partitionLoop entries (AList.update key v headers, meta))"

text \<open>The forwarded headers are a JavaScript object: it lists its keys that are array
  indices first, in ascending order, and then the other keys in the order of their first
  assignment.\<close>

definition isArrayIndex :: "string \<Rightarrow> bool" where
  \<comment> \<open>the canonical decimal form of an integer from 0 to \<open>2^32 - 2\<close>\<close>
  "isArrayIndex k =
     (k \<noteq> [] \<and> list_all isDigit k \<and> (k = ''0'' \<or> hd k \<noteq> CHR ''0'')
      \<and> digitsValue k < 4294967295)"

definition ownPropertyOrder :: "headerMap \<Rightarrow> headerMap" where
  "ownPropertyOrder members =
     sort_key (\<lambda>(k, v). digitsValue k) (filter (\<lambda>(k, v). isArrayIndex k) members)
       @ filter (\<lambda>(k, v). \<not> isArrayIndex k) members"

definition partitionHeaders :: "headerMap \<Rightarrow> headerMap option \<times> headerMap" where
  \<comment> \<open>the forwarded headers (\<open>undefined\<close> when there are none) and the metadata map\<close>
  "partitionHeaders entries =
     (if length entries = 0 then (None, [])
      else
        (case partitionLoop entries ([], []) of
           (headers, meta) \<Rightarrow>
             (if length headers \<noteq> 0 then Some (ownPropertyOrder headers) else None, meta)))"

definition tryParseUrl :: "(string \<Rightarrow> url option) \<Rightarrow> string \<Rightarrow> url option" where
  "tryParseUrl newURL v =
     (case newURL v of
        None \<Rightarrow> None
      | Some u \<Rightarrow> if url_protocol u \<in> set SUPPORTED_PROTOCOLS then Some u else None)"

definition buildServerUrl :: "url \<Rightarrow> string" where
  "buildServerUrl u =
     (let auth = (if url_username u \<noteq> []
                  then url_username u @ (if url_password u \<noteq> [] then '':'' @ url_password u else []) @ ''@''
                  else []);
          prt = (if url_port u \<noteq> [] then '':'' @ url_port u else [])
      in url_protocol u @ ''//'' @ auth @ url_hostname u @ prt)"

definition hexDigit :: "char \<Rightarrow> nat option" where
  "hexDigit c =
     (if isDigit c then Some (charCode c - 48)
      else if charCode CHR ''a'' \<le> charCode c \<and> charCode c \<le> charCode CHR ''f'' then Some (charCode c - 87)
      else if charCode CHR ''A'' \<le> charCode c \<and> charCode c \<le> charCode CHR ''F'' then Some (charCode c - 55)
      else None)"

definition escapeAt :: "string \<Rightarrow> nat \<Rightarrow> nat option" where
  \<comment> \<open>the octet of the escape \<open>%XX\<close> that starts at position \<open>k\<close>, when there is one\<close>
  "escapeAt s k =
     (if k + 3 \<le> length s \<and> s ! k = CHR ''%'' then
        (case (hexDigit (s ! (k + 1)), hexDigit (s ! (k + 2))) of
           (Some h, Some l) \<Rightarrow> Some (16 * h + l)
         | _ \<Rightarrow> None)
      else None)"

definition leadingOnes :: "nat \<Rightarrow> nat" where
  \<comment> \<open>the number of leading 1 bits of an octet (5 stands for five or more)\<close>
  "leadingOnes b =
     (if b < 0x80 then 0 else if b < 0xC0 then 1 else if b < 0xE0 then 2
      else if b < 0xF0 then 3 else if b < 0xF8 then 4 else 5)"

definition isContinuation :: "nat \<Rightarrow> bool" where
  "isContinuation b = (0x80 \<le> b \<and> b \<le> 0xBF)"

fun validUtf8 :: "nat list \<Rightarrow> bool" where
  \<comment> \<open>the octets are the UTF-8 encoding of one code point beyond ASCII\<close>
  "validUtf8 [a, b] = (0xC2 \<le> a \<and> a \<le> 0xDF \<and> isContinuation b)"
| "validUtf8 [a, b, c] =
     (isContinuation c \<and>
      (if a = 0xE0 then 0xA0 \<le> b \<and> b \<le> 0xBF
       else if a = 0xED then 0x80 \<le> b \<and> b \<le> 0x9F
       else 0xE1 \<le> a \<and> a \<le> 0xEF \<and> isContinuation b))"
| "validUtf8 [a, b, c, d] =
     (isContinuation c \<and> isContinuation d \<and>
      (if a = 0xF0 then 0x90 \<le> b \<and> b \<le> 0xBF
       else if a = 0xF4 then 0x80 \<le> b \<and> b \<le> 0x8F
       else 0xF1 \<le> a \<and> a \<le> 0xF3 \<and> isContinuation b))"
| "validUtf8 _ = False"

fun those_list :: "'a option list \<Rightarrow> 'a list option" where
  "those_list [] = Some []"
| "those_list (None # xs) = None"
| "those_list (Some x # xs) = map_option (Cons x) (those_list xs)"

text \<open>\<open>decodeURIComponent\<close>, after the abstract operation Decode of ECMAScript: an
  escape \<open>%XX\<close> below 0x80 is the character itself; an escape from 0x80 on starts a UTF-8
  sequence whose octets are all escapes; anything else after a percent sign, and an octet
  sequence that is not well-formed UTF-8, throws \<open>URIError\<close>. The decoded code point is
  kept as its UTF-8 bytes.\<close>

function decodeURIComponent :: "string \<Rightarrow> error + string" where
  "decodeURIComponent s =
     (case s of
        [] \<Rightarrow> Inr []
      | c # cs \<Rightarrow>
          if c \<noteq> CHR ''%'' then
            (case decodeURIComponent cs of Inl e \<Rightarrow> Inl e | Inr r \<Rightarrow> Inr (c # r))
          else
            (case escapeAt s 0 of
               None \<Rightarrow> Inl URIError
             | Some b \<Rightarrow>
                 let n = leadingOnes b in
                 if n = 0 then
                   (case decodeURIComponent (drop 3 s) of
                      Inl e \<Rightarrow> Inl e
                    | Inr r \<Rightarrow> Inr (char_of b # r))
                 else if n = 1 \<or> 4 < n then Inl URIError
                 else
                   (case those_list (map (\<lambda>j. escapeAt s (3 * j)) [0 ..< n]) of
                      None \<Rightarrow> Inl URIError
                    | Some octets \<Rightarrow>
                        if \<not> validUtf8 octets then Inl URIError
                        else
                          (case decodeURIComponent (drop (3 * n) s) of
                             Inl e \<Rightarrow> Inl e
                           | Inr r \<Rightarrow> Inr (map char_of octets @ r)))))"
  by pat_completeness auto
termination
  by (relation "measure length") auto

declare decodeURIComponent.simps [simp del]

definition decodeSubject :: "string \<Rightarrow> error + string option" where
  "decodeSubject pathname =
     (let trimmed = (if startsWith pathname ''/'' then drop 1 pathname else pathname) in
      case decodeURIComponent trimmed of
        Inl e \<Rightarrow> Inl e
      | Inr decoded \<Rightarrow> Inr (if 0 < length decoded then Some decoded else None))"

record resolvedConnection =
  conn_subject :: "string option"
  conn_server :: string

definition resolveConnection :: "(string \<Rightarrow> url option) \<Rightarrow> string \<Rightarrow> headerMap
    \<Rightarrow> error + resolvedConnection option" where
  "resolveConnection newURL target meta =
     (let trimmedTarget = trim target;
          candidateSubject =
            (if 0 < length trimmedTarget then trimmedTarget
             else (case map_of meta ''nats-subject'' of None \<Rightarrow> [] | Some v \<Rightarrow> v))
      in case tryParseUrl newURL candidateSubject of
           Some u \<Rightarrow>
             (let server = buildServerUrl u in
              case decodeSubject (url_pathname u) of
                Inl e \<Rightarrow> Inl e
              | Inr decoded \<Rightarrow>
                  let subject = (case decoded of Some d \<Rightarrow> Some d
                                 | None \<Rightarrow> map_of meta ''nats-subject'')
                  in if falsy subject then Inr None
                     else Inr (Some \<lparr>conn_subject = subject, conn_server = server\<rparr>))
         | None \<Rightarrow>
             (let serverHeader = map_of meta ''nats-server'' in
              if falsy serverHeader then Inr None
              else
                let subject = (if candidateSubject \<noteq> [] then Some candidateSubject
                               else map_of meta ''nats-subject'')
                in if falsy subject then Inr None
                   else Inr (Some \<lparr>conn_subject = subject, conn_server = the serverHeader\<rparr>)))"

text \<open>A JavaScript number is a double: an integer below \<open>2^53\<close> is itself, a greater
  one is rounded to 53 significant bits, ties to even, and from \<open>2^1024\<close> on the result
  is \<open>Infinity\<close>, which is \<open>None\<close> here.\<close>

fun bitLength :: "nat \<Rightarrow> nat" where
  "bitLength n = (if n = 0 then 0 else Suc (bitLength (n div 2)))"

declare bitLength.simps [simp del]

definition toDouble :: "nat \<Rightarrow> nat option" where
  "toDouble n =
     (if n < 2 ^ 53 then Some n
      else
        let e = bitLength n - 53;
            q = n div 2 ^ e;
            r = n mod 2 ^ e;
            half = 2 ^ (e - 1);
            q' = (if half < r \<or> (r = half \<and> odd q) then q + 1 else q)
        in if 2 ^ 1024 \<le> q' * 2 ^ e then None else Some (q' * 2 ^ e))"

definition parseInteger :: "string option \<Rightarrow> int option" where
  \<comment> \<open>\<open>Number.parseInt(value, 10)\<close>, kept when \<open>Number.isFinite\<close>\<close>
  "parseInteger v =
     (if falsy v then None
      else
        let t = trimStart (the v);
            negative = startsWith t ''-'';
            u = (if startsWith t ''-'' \<or> startsWith t ''+'' then drop 1 t else t);
            ds = takeWhile isDigit u
        in if ds = [] then None
           else (case toDouble (digitsValue ds) of
                   None \<Rightarrow> None
                 | Some n \<Rightarrow> Some (if negative then - int n else int n)))"

definition looksLikeJson :: "string option \<Rightarrow> bool" where
  "looksLikeJson v =
     (if falsy v then False
      else
        let trimmed = trim (the v)
        in startsWith trimmed ''{'' \<or> startsWith trimmed ''['' \<or>
           startsWith trimmed [CHR 0x22] \<or> startsWith trimmed [CHR 0x27])"

definition finishAction :: "natsActionType \<Rightarrow> nat \<Rightarrow> headerMap option \<Rightarrow> headerMap
    \<Rightarrow> string option \<Rightarrow> resolvedConnection \<Rightarrow> natsAction option" where
  \<comment> \<open>\<open>parseActionFromBlock\<close> from the line \<open>const timeoutMs = ...\<close> on\<close>
  "finishAction ty lineNo headers meta body connection =
     (let timeoutMs = parseInteger (map_of meta ''nats-timeout'') in
      if ty = JetstreamPull then
        (if falsy (map_of meta ''nats-stream'') \<or> falsy (map_of meta ''nats-durable'') then None
         else
           let batchCandidate = (case parseInteger (map_of meta ''nats-batch'') of
                                   None \<Rightarrow> 1 | Some b \<Rightarrow> b)
           in Some \<lparr>action_type = ty, action_subject = the (map_of meta ''nats-stream''),
                 action_lineNumber = lineNo, action_server = Some (conn_server connection),
                 action_data = None, action_template = None,
                 action_stream = map_of meta ''nats-stream'',
                 action_durable = map_of meta ''nats-durable'',
                 action_batchSize = Some (max 1 batchCandidate),
                 action_timeoutMs = timeoutMs, action_headers = headers\<rparr>)
      else if falsy (conn_subject connection) then None
      else if ty = Reply then
        (let replyMode = toLowerCase (case map_of meta ''nats-reply-mode'' of
                                        None \<Rightarrow> [] | Some m \<Rightarrow> m);
             templateMode = (replyMode = ''template'' \<or> (replyMode = [] \<and> \<not> looksLikeJson body))
         in Some \<lparr>action_type = ty, action_subject = the (conn_subject connection),
               action_lineNumber = lineNo, action_server = Some (conn_server connection),
               action_data = (if \<not> templateMode then body else None),
               action_template = (if templateMode then body else None),
               action_stream = None, action_durable = None, action_batchSize = None,
               action_timeoutMs = None, action_headers = headers\<rparr>)
      else
        Some \<lparr>action_type = ty, action_subject = the (conn_subject connection),
              action_lineNumber = lineNo, action_server = Some (conn_server connection),
              action_data = body, action_template = None,
              action_stream = None, action_durable = None, action_batchSize = None,
              action_timeoutMs = timeoutMs, action_headers = headers\<rparr>)"

definition parseActionFromBlock :: "(string \<Rightarrow> url option) \<Rightarrow> (nat \<Rightarrow> string) \<Rightarrow> nat
    \<Rightarrow> rawLine list \<Rightarrow> error + (natsAction option \<times> nat)" where
  "parseActionFromBlock newURL gen n lines =
     (if length lines = 0 then Inr (None, n)
      else
        (case findRequestLineIndex lines of
           None \<Rightarrow> Inr (None, n)
         | Some requestIndex \<Rightarrow>
             (let requestLine = trim (line_text (lines ! requestIndex));
                  keyword = firstToken requestLine
              in (case mapKeyword keyword of
                    None \<Rightarrow> Inr (None, n)
                  | Some ty \<Rightarrow>
                      (let target = trim (drop (length keyword) requestLine) in
                       (case parseHeaders gen n lines (requestIndex + 1) of
                          (entries, nextIndex, n1) \<Rightarrow>
                            (case partitionHeaders entries of
                               (headers, meta) \<Rightarrow>
                                 (case collectBody gen n1 lines nextIndex of
                                    (body, n2) \<Rightarrow>
                                      (case resolveConnection newURL target meta of
                                         Inl e \<Rightarrow> Inl e
                                       | Inr None \<Rightarrow> Inr (None, n2)
                                       | Inr (Some connection) \<Rightarrow>
                                           Inr (finishAction ty
                                                  (lineNumber (lines ! requestIndex))
                                                  headers meta body connection, n2))))))))))"

text \<open>The loop of \<open>parseNatsDocument\<close> over the segments; an exception of
  \<open>parseActionFromBlock\<close> leaves the loop and the function.\<close>

fun parseSegments :: "(string \<Rightarrow> url option) \<Rightarrow> (nat \<Rightarrow> string) \<Rightarrow> nat
    \<Rightarrow> natsDocumentSegment list \<Rightarrow> natsAction list \<Rightarrow> error + natsAction list" where
  "parseSegments newURL gen n [] actions = Inr actions"
| "parseSegments newURL gen n (Delimiter l # segments) actions =
     parseSegments newURL gen n segments actions"
| "parseSegments newURL gen n (Block lines # segments) actions =
     (case parseActionFromBlock newURL gen n lines of
        Inl e \<Rightarrow> Inl e
      | Inr (None, n') \<Rightarrow> parseSegments newURL gen n' segments actions
      | Inr (Some action, n') \<Rightarrow> parseSegments newURL gen n' segments (actions @ [action]))"

definition parseNatsDocument :: "(string \<Rightarrow> url option) \<Rightarrow> (nat \<Rightarrow> string) \<Rightarrow> string
    \<Rightarrow> error + natsAction list" where
  "parseNatsDocument newURL gen doc = parseSegments newURL gen 0 (segmentNatsDocument doc) []"

section \<open>Template interpolator\<close>

datatype json =
    JNull
  | JBool bool
  | JNumber string \<comment> \<open>a number, by the text \<open>JSON.stringify\<close> gives for it\<close>
  | JString string
  | JArray "json list"
  | JObject "(string \<times> json) list" \<comment> \<open>the fields, in the object's own order\<close>

text \<open>The members of an inbound message (\<open>MsgLike\<close>) that the program reads:
  \<open>msg_json\<close> is \<open>None\<close> where \<open>msg.json()\<close> throws, \<open>msg_headers\<close> is \<open>None\<close> where
  the message has no headers, and \<open>msg_ack\<close> is \<open>None\<close> where the message has no
  \<open>ack\<close> member, \<open>Some None\<close> where the acknowledgement succeeds and \<open>Some (Some e)\<close>
  where it fails with \<open>e\<close>.\<close>

record msgLike =
  msg_subject :: string
  msg_reply :: "string option"
  msg_headers :: "headerMap option"
  msg_string :: string
  msg_json :: "json option"
  msg_ack :: "error option option"

definition hexChar :: "nat \<Rightarrow> char" where
  "hexChar d = (if d < 10 then char_of (48 + d) else char_of (87 + d))"

definition escapeJsonChar :: "char \<Rightarrow> string" where
  \<comment> \<open>one character of QuoteJSONString\<close>
  "escapeJsonChar c =
     (if c = CHR 0x08 then [CHR 0x5C, CHR ''b'']
      else if c = CHR 0x09 then [CHR 0x5C, CHR ''t'']
      else if c = CHR 0x0A then [CHR 0x5C, CHR ''n'']
      else if c = CHR 0x0C then [CHR 0x5C, CHR ''f'']
      else if c = CHR 0x0D then [CHR 0x5C, CHR ''r'']
      else if c = CHR 0x22 then [CHR 0x5C, CHR 0x22]
      else if c = CHR 0x5C then [CHR 0x5C, CHR 0x5C]
      else if charCode c < 0x20 then
        [CHR 0x5C, CHR ''u'', CHR ''0'', CHR ''0'', hexChar (charCode c div 16),
         hexChar (charCode c mod 16)]
      else [c])"

definition quoteJsonString :: "string \<Rightarrow> string" where
  "quoteJsonString s = [CHR 0x22] @ concat (map escapeJsonChar s) @ [CHR 0x22]"

fun joinWith :: "string \<Rightarrow> string list \<Rightarrow> string" where
  "joinWith sep [] = []"
| "joinWith sep [x] = x"
| "joinWith sep (x # xs) = x @ sep @ joinWith sep xs"

text \<open>\<open>JSON.stringify\<close> of a value that \<open>JSON.parse\<close> produced.\<close>

fun stringify :: "json \<Rightarrow> string" where
  "stringify JNull = ''null''"
| "stringify (JBool b) = (if b then ''true'' else ''false'')"
| "stringify (JNumber t) = t"
| "stringify (JString s) = quoteJsonString s"
| "stringify (JArray xs) = ''['' @ joinWith '','' (map stringify xs) @ '']''"
| "stringify (JObject members) =
     ''{'' @ joinWith '','' (map (\<lambda>(k, v). quoteJsonString k @ '':'' @ stringify v) members) @ ''}''"

definition safeStringResponse :: "msgLike \<Rightarrow> string" where
  "safeStringResponse msg =
     (case msg_json msg of Some d \<Rightarrow> stringify d | None \<Rightarrow> msg_string msg)"

text \<open>\<open>String.prototype.replace\<close> with a replacement string: in the replacement,
  \<open>$$\<close> is a dollar sign, \<open>$&\<close> the match, \<open>$`\<close> the text before the match and \<open>$'\<close>
  the text after it. The patterns below have no capture group, so \<open>$1\<close> and the like
  stay as they are.\<close>

fun expandReplacement :: "string \<Rightarrow> string \<Rightarrow> string \<Rightarrow> string \<Rightarrow> string" where
  "expandReplacement matched preceding following [] = []"
| "expandReplacement matched preceding following [c] = [c]"
| "expandReplacement matched preceding following (c # d # r) =
     (if c = CHR ''$'' \<and> d = CHR ''$'' then CHR ''$'' # expandReplacement matched preceding following r
      else if c = CHR ''$'' \<and> d = CHR ''&'' then matched @ expandReplacement matched preceding following r
      else if c = CHR ''$'' \<and> d = CHR 0x60 then preceding @ expandReplacement matched preceding following r
      else if c = CHR ''$'' \<and> d = CHR 0x27 then following @ expandReplacement matched preceding following r
      else c # expandReplacement matched preceding following (d # r))"

text \<open>\<open>str.replace(/pattern/g, replacement)\<close> for a pattern that is one literal text;
  the scan is at position \<open>pos\<close> of \<open>str\<close>.\<close>

function replaceLiteral :: "string \<Rightarrow> string \<Rightarrow> string \<Rightarrow> nat \<Rightarrow> string" where
  "replaceLiteral pat replacement str pos =
     (if length str \<le> pos then []
      else if 0 < length pat \<and> startsWith (drop pos str) pat then
        expandReplacement pat (take pos str) (drop (pos + length pat) str) replacement
          @ replaceLiteral pat replacement str (pos + length pat)
      else (str ! pos) # replaceLiteral pat replacement str (pos + 1))"
  by pat_completeness auto
termination
  by (relation "measure (\<lambda>(pat, replacement, str, pos). length str - pos)")
    (auto simp: neq_Nil_conv)

declare replaceLiteral.simps [simp del]

text \<open>\<open>str.replace(/prefix([class]+)/g, (_, name) => f(name))\<close>: a token is the
  prefix and the longest run of name characters after it, which must not be empty; what
  the function returns is inserted as it is.\<close>

function replaceTokens :: "string \<Rightarrow> (char \<Rightarrow> bool) \<Rightarrow> (string \<Rightarrow> string) \<Rightarrow> string \<Rightarrow> string" where
  "replaceTokens prefix isNameChar f s =
     (case s of
        [] \<Rightarrow> []
      | c # cs \<Rightarrow>
          let name = takeWhile isNameChar (drop (length prefix) s) in
          if startsWith s prefix \<and> name \<noteq> [] then
            f name @ replaceTokens prefix isNameChar f (drop (length prefix + length name) s)
          else c # replaceTokens prefix isNameChar f cs)"
  by pat_completeness auto
termination
  by (relation "measure (\<lambda>(prefix, isNameChar, f, s). length s)") auto

declare replaceTokens.simps [simp del]

definition isWordChar :: "char \<Rightarrow> bool" where
  \<comment> \<open>\<open>[a-zA-Z0-9_]\<close>\<close>
  "isWordChar c = (isAlpha c \<or> isDigit c \<or> c = CHR ''_'')"

definition isHeaderNameChar :: "char \<Rightarrow> bool" where
  \<comment> \<open>\<open>[a-zA-Z0-9_-]\<close>\<close>
  "isHeaderNameChar c = (isWordChar c \<or> c = CHR ''-'')"

definition headerValue :: "msgLike \<Rightarrow> string \<Rightarrow> string" where
  \<comment> \<open>\<open>msg.headers?.get(header) ?? ""\<close>\<close>
  "headerValue msg header =
     (case msg_headers msg of
        None \<Rightarrow> []
      | Some h \<Rightarrow> (case map_of h header of None \<Rightarrow> [] | Some v \<Rightarrow> v))"

definition fieldOf :: "json \<Rightarrow> string \<Rightarrow> json option" where
  \<comment> \<open>the field \<open>key\<close> of a decoded object\<close>
  "fieldOf d key = (case d of JObject members \<Rightarrow> map_of members key | _ \<Rightarrow> None)"

text \<open>The function that replaces a token \<open>$json.key\<close>. \<open>data?.[key]\<close> finds a field of
  the decoded object. What it finds for a key that is no such field but a member the
  JavaScript runtime gives the value (a method of its prototype, the length or an index
  of an array or a string) is the parameter \<open>builtinMember\<close>: the text the token is
  replaced with, or \<open>None\<close> where there is no such member and the lookup is
  \<open>undefined\<close>. \<open>value ?? ""\<close> turns \<open>undefined\<close> and \<open>null\<close> into the empty string,
  which \<open>JSON.stringify\<close> then encodes.\<close>

definition jsonReplacement :: "(json \<Rightarrow> string \<Rightarrow> string option) \<Rightarrow> msgLike \<Rightarrow> string \<Rightarrow> string" where
  "jsonReplacement builtinMember msg key =
     (case msg_json msg of
        None \<Rightarrow> []
      | Some JNull \<Rightarrow> stringify (JString [])
      | Some d \<Rightarrow>
          (case fieldOf d key of
             Some (JString v) \<Rightarrow> v
           | Some JNull \<Rightarrow> stringify (JString [])
           | Some v \<Rightarrow> stringify v
           | None \<Rightarrow>
               (case builtinMember d key of
                  Some t \<Rightarrow> t
                | None \<Rightarrow> stringify (JString []))))"

definition interpolateTemplate :: "(json \<Rightarrow> string \<Rightarrow> string option) \<Rightarrow> string \<Rightarrow> msgLike \<Rightarrow> string" where
  "interpolateTemplate builtinMember template msg =
     (let result1 = replaceLiteral ''$msg.data'' (safeStringResponse msg) template 0;
          result2 = replaceLiteral ''$msg.subject'' (msg_subject msg) result1 0;
          result3 = replaceTokens ''$msg.headers.'' isHeaderNameChar (headerValue msg) result2
      in replaceTokens ''$json.'' isWordChar (jsonReplacement builtinMember msg) result3)"

section \<open>Session manager\<close>

text \<open>
  The session is a record of its five maps. A JavaScript \<open>Map\<close> keeps its keys in
  insertion order, so each map is an association list: \<open>set\<close> is \<open>AList.update\<close> (a
  present key keeps its place, a new key goes last), \<open>delete\<close> is \<open>AList.delete\<close> and
  \<open>get\<close> is \<open>map_of\<close>. The field \<open>events\<close> is the trace of the calls the session has
  made on its collaborators, oldest first; it is how a theorem speaks of the order of
  effects.

  The collaborators (the connector, the connections, the clock, the sinks) are the
  record \<open>world\<close>: each function gets the trace so far, so that a collaborator may
  answer differently from one call to the next. An operation of the session is a function
  from the state at its call to the state at its return. The session runs on one thread:
  between two \<open>await\<close>s its code runs undisturbed, and at an \<open>await\<close> another call may
  run. Where a theorem depends on what happens at an \<open>await\<close>, the operation is also given
  in its segments (\<open>registerSubscription\<close>, \<open>registerReplyHandler\<close> below). The consume
  loop that \<open>startSubscription\<close> starts (the \<open>task\<close> of a context) runs in later turns
  and changes none of the five maps.
\<close>

record natsConnectOptions =
  opt_servers :: "string list"
  opt_user :: "string option"
  opt_pass :: "string option"

record natsConnection =
  nc_id :: nat
  nc_client_id :: "string option"
  nc_host :: "string option"
  nc_port :: "string option"
  nc_jetstream :: bool \<comment> \<open>whether the connection has the member \<open>jetstream\<close>\<close>

record subscriptionContext =
  ctx_subject :: string
  ctx_server :: string
  ctx_subscription :: nat \<comment> \<open>the handle \<open>subscribe\<close> returned\<close>
  ctx_sink :: nat
  ctx_template :: "string option"
  ctx_payload :: "string option"
  ctx_headers :: "headerMap option"

record managedConnection =
  mc_serverKey :: string
  mc_rawUrl :: string
  mc_connection :: natsConnection
  mc_markedClosed :: bool

record logItem =
  item_title :: string
  item_body :: "string option"
  item_headers :: "headerMap option"

record logBlock =
  log_meta :: "(string \<times> string) list"
  log_items :: "logItem list"

datatype event =
    ConnectCall natsConnectOptions \<comment> \<open>\<open>connector(options)\<close>\<close>
  | SubscribeCall nat string nat \<comment> \<open>\<open>subscribe(subject)\<close> on a connection, and its handle\<close>
  | UnsubscribeCall nat \<comment> \<open>\<open>unsubscribe()\<close> on a handle\<close>
  | CloseCall nat \<comment> \<open>\<open>close()\<close> on a connection\<close>
  | JetstreamCall nat \<comment> \<open>\<open>jetstream()\<close> on a connection\<close>
  | ConsumerGetCall nat string string \<comment> \<open>\<open>consumers.get(stream, durable)\<close> on a JetStream client\<close>
  | FetchCall nat int int \<comment> \<open>\<open>fetch({max_messages, expires})\<close> on a consumer\<close>
  | AckCall msgLike \<comment> \<open>\<open>msg.ack()\<close>\<close>
  | AppendLog nat logBlock "string option" \<comment> \<open>\<open>appendLogBlock(sink, block, separator)\<close>\<close>

record world =
  w_newURL :: "string \<Rightarrow> url option"
  w_connector :: "event list \<Rightarrow> natsConnectOptions \<Rightarrow> error + natsConnection"
  w_subscribe :: "event list \<Rightarrow> natsConnection \<Rightarrow> string \<Rightarrow> nat"
  w_close :: "event list \<Rightarrow> natsConnection \<Rightarrow> error option"
  w_now :: "event list \<Rightarrow> error + string"
  w_append :: "event list \<Rightarrow> nat \<Rightarrow> logBlock \<Rightarrow> error option"
  w_jetstream :: "event list \<Rightarrow> natsConnection \<Rightarrow> error + nat"
  w_consumersGet :: "event list \<Rightarrow> nat \<Rightarrow> string \<Rightarrow> string \<Rightarrow> error + nat"
  w_fetch :: "event list \<Rightarrow> nat \<Rightarrow> int \<Rightarrow> int \<Rightarrow> error + msgLike list \<times> error option"

text \<open>\<open>w_now\<close> is \<open>this.now().toISOString()\<close>, which throws where the injected clock does
  or where its date is invalid; \<open>w_append\<close> is the sink taking a record, or failing to;
  \<open>w_jetstream\<close> is the call \<open>nc.jetstream()\<close>, which gives the JetStream client or
  throws. \<open>w_fetch\<close> gives the messages the iterator yields and, where the iteration
  ends with a failure instead of running out, that failure.\<close>

record session =
  connections :: "(string \<times> managedConnection) list"
  subscriptions :: "(string \<times> subscriptionContext) list"
  replies :: "(string \<times> subscriptionContext) list"
  subscriptionCounts :: "(string \<times> int) list"
  replyCounts :: "(string \<times> int) list"
  events :: "event list"

definition emptySession :: session where
  "emptySession = \<lparr>connections = [], subscriptions = [], replies = [],
     subscriptionCounts = [], replyCounts = [], events = []\<rparr>"

definition subjectKey :: "string \<Rightarrow> string \<Rightarrow> string" where
  "subjectKey server subject = server @ ''|'' @ subject"

definition countOf :: "(string \<times> int) list \<Rightarrow> string \<Rightarrow> int" where
  \<comment> \<open>\<open>store.get(key) ?? 0\<close>\<close>
  "countOf store key = (case map_of store key of None \<Rightarrow> 0 | Some v \<Rightarrow> v)"

definition incrementCount :: "(string \<times> int) list \<Rightarrow> string \<Rightarrow> string \<Rightarrow> (string \<times> int) list" where
  "incrementCount store server subject =
     (let key = subjectKey server subject in AList.update key (countOf store key + 1) store)"

definition decrementCount :: "(string \<times> int) list \<Rightarrow> string \<Rightarrow> string \<Rightarrow> (string \<times> int) list" where
  "decrementCount store server subject =
     (let key = subjectKey server subject;
          current = countOf store key
      in if current \<le> 1 then AList.delete key store
         else AList.update key (current - 1) store)"

definition endsWith :: "string \<Rightarrow> string \<Rightarrow> bool" where
  "endsWith s suffix =
     (length suffix \<le> length s \<and> drop (length s - length suffix) s = suffix)"

definition collectCount :: "(string \<times> int) list \<Rightarrow> string \<Rightarrow> int" where
  "collectCount store subject =
     foldl (\<lambda>total (key, v). if endsWith key (''|'' @ subject) then total + v else total) 0 store"

definition getSubscriptionCount :: "session \<Rightarrow> string \<Rightarrow> int" where
  "getSubscriptionCount s subject = collectCount (subscriptionCounts s) subject"


definition isSubscribed :: "session \<Rightarrow> string \<Rightarrow> bool" where
  "isSubscribed s key = (map_of (subscriptions s) key \<noteq> None)"

definition isReplyHandlerActive :: "session \<Rightarrow> string \<Rightarrow> bool" where
  "isReplyHandlerActive s key = (map_of (replies s) key \<noteq> None)"

definition buildConnectOptions :: "world \<Rightarrow> string \<Rightarrow> error + natsConnectOptions" where
  "buildConnectOptions w rawUrl =
     (case w_newURL w rawUrl of
        None \<Rightarrow> Inl InvalidUrl
      | Some parsed \<Rightarrow>
          Inr \<lparr>opt_servers = [url_protocol parsed @ ''//'' @ url_hostname parsed
                   @ (if url_port parsed \<noteq> [] then '':'' @ url_port parsed else [])],
               opt_user = (if url_username parsed \<noteq> [] then Some (url_username parsed) else None),
               opt_pass = (if url_password parsed \<noteq> [] then Some (url_password parsed) else None)\<rparr>)"

definition normalizeServerUrl :: "world \<Rightarrow> string \<Rightarrow> error + string" where
  "normalizeServerUrl w rawUrl =
     (case w_newURL w rawUrl of
        None \<Rightarrow> Inl InvalidUrl
      | Some parsed \<Rightarrow> Inr (buildServerUrl parsed))"

definition connectionInfo :: "natsConnection \<Rightarrow> string" where
  "connectionInfo connection =
     ''['' @ (case nc_client_id connection of None \<Rightarrow> ''client'' | Some i \<Rightarrow> i)
       @ ''@'' @ (case nc_host connection of None \<Rightarrow> ''host'' | Some h \<Rightarrow> h)
       @ '':'' @ (case nc_port connection of None \<Rightarrow> ''port'' | Some p \<Rightarrow> p) @ '']''"

definition formatError :: "error \<Rightarrow> string" where
  "formatError e =
     (case e of Error m \<Rightarrow> m | URIError \<Rightarrow> ''URI malformed'' | InvalidUrl \<Rightarrow> ''Invalid URL'')"

definition record_event :: "event \<Rightarrow> session \<Rightarrow> session" where
  "record_event e s = s\<lparr>events := events s @ [e]\<rparr>"

definition timestamp :: "world \<Rightarrow> session \<Rightarrow> error + string" where
  "timestamp w s = w_now w (events s)"

definition appendLogBlock :: "world \<Rightarrow> nat \<Rightarrow> logBlock \<Rightarrow> string option \<Rightarrow> session
    \<Rightarrow> (error + unit) \<times> session" where
  \<comment> \<open>Modelled from the spec: \<open>appendLogBlock\<close> of \<open>services/log-sink\<close> is not among the
      sources; it hands the log record to the sink, which the trace records, and it
      fails where the sink does.\<close>
  "appendLogBlock w sink block separator s =
     (case w_append w (events s) sink block of
        Some e \<Rightarrow> (Inl e, record_event (AppendLog sink block separator) s)
      | None \<Rightarrow> (Inr (), record_event (AppendLog sink block separator) s))"

definition readMsgHeaders :: "headerMap option \<Rightarrow> headerMap option" where
  \<comment> \<open>Modelled from the spec: \<open>readMsgHeaders\<close> of \<open>services/header-utils\<close> is not among
      the sources; it gives the headers of a message as a header map.\<close>
  "readMsgHeaders h = h"

definition getConnection :: "world \<Rightarrow> string \<Rightarrow> session \<Rightarrow> (error + managedConnection) \<times> session" where
  "getConnection w rawUrl s =
     (case normalizeServerUrl w rawUrl of
        Inl e \<Rightarrow> (Inl e, s)
      | Inr serverKey \<Rightarrow>
          (case map_of (connections s) serverKey of
             Some existing \<Rightarrow> (Inr existing, s)
           | None \<Rightarrow>
               (case buildConnectOptions w rawUrl of
                  Inl e \<Rightarrow> (Inl e, s)
                | Inr options \<Rightarrow>
                    (case w_connector w (events s) options of
                       Inl e \<Rightarrow> (Inl e, record_event (ConnectCall options) s)
                     | Inr connection \<Rightarrow>
                         (let managed = \<lparr>mc_serverKey = serverKey, mc_rawUrl = rawUrl,
                                mc_connection = connection, mc_markedClosed = False\<rparr>;
                              s1 = record_event (ConnectCall options) s
                          in (Inr managed,
                              s1\<lparr>connections := AList.update serverKey managed (connections s1)\<rparr>))))))"

definition startSubscription :: "world \<Rightarrow> string \<Rightarrow> string \<Rightarrow> nat \<Rightarrow> string \<Rightarrow> session
    \<Rightarrow> (error + unit) \<times> session" where
  "startSubscription w serverUrl subject sink key s =
     (if map_of (subscriptions s) key \<noteq> None then (Inr (), s)
      else
        (case getConnection w serverUrl s of
           (Inl e, s1) \<Rightarrow> (Inl e, s1)
         | (Inr connection, s1) \<Rightarrow>
             (let subscription = w_subscribe w (events s1) (mc_connection connection) subject;
                  s2 = record_event
                         (SubscribeCall (nc_id (mc_connection connection)) subject subscription) s1;
                  s3 = s2\<lparr>subscriptions := AList.update key
                           \<lparr>ctx_subject = subject, ctx_server = mc_serverKey connection,
                            ctx_subscription = subscription, ctx_sink = sink,
                            ctx_template = None, ctx_payload = None, ctx_headers = None\<rparr>
                           (subscriptions s2)\<rparr>
              in (Inr (),
                  s3\<lparr>subscriptionCounts :=
                       incrementCount (subscriptionCounts s3) (mc_serverKey connection) subject\<rparr>))))"

definition startReplyHandler :: "world \<Rightarrow> string \<Rightarrow> string \<Rightarrow> string option \<Rightarrow> string option
    \<Rightarrow> nat \<Rightarrow> string \<Rightarrow> headerMap option \<Rightarrow> session \<Rightarrow> (error + unit) \<times> session" where
  "startReplyHandler w serverUrl subject template payload sink key replyHeaders s =
     (if map_of (replies s) key \<noteq> None then (Inr (), s)
      else
        (case getConnection w serverUrl s of
           (Inl e, s1) \<Rightarrow> (Inl e, s1)
         | (Inr connection, s1) \<Rightarrow>
             (let subscription = w_subscribe w (events s1) (mc_connection connection) subject;
                  s2 = record_event
                         (SubscribeCall (nc_id (mc_connection connection)) subject subscription) s1;
                  s3 = s2\<lparr>replies := AList.update key
                           \<lparr>ctx_subject = subject, ctx_server = mc_serverKey connection,
                            ctx_subscription = subscription, ctx_sink = sink,
                            ctx_template = template, ctx_payload = payload,
                            ctx_headers = replyHeaders\<rparr>
                           (replies s2)\<rparr>
              in (Inr (),
                  s3\<lparr>replyCounts :=
                       incrementCount (replyCounts s3) (mc_serverKey connection) subject\<rparr>))))"

text \<open>\<open>startSubscription\<close> and \<open>startReplyHandler\<close> test their key, then wait for
  \<open>getConnection\<close> at an \<open>await\<close>, and register the context when they run again. A
  second call that arrives in between finds the key not yet registered. The two
  definitions below are the segment after the \<open>await\<close>, from the \<open>subscribe\<close> call to
  \<open>incrementCount\<close>, on the connection that \<open>getConnection\<close> gave.\<close>

definition registerSubscription :: "world \<Rightarrow> string \<Rightarrow> nat \<Rightarrow> string \<Rightarrow> managedConnection
    \<Rightarrow> session \<Rightarrow> session" where
  "registerSubscription w subject sink key connection s1 =
     (let subscription = w_subscribe w (events s1) (mc_connection connection) subject;
          s2 = record_event
                 (SubscribeCall (nc_id (mc_connection connection)) subject subscription) s1;
          s3 = s2\<lparr>subscriptions := AList.update key
                   \<lparr>ctx_subject = subject, ctx_server = mc_serverKey connection,
                    ctx_subscription = subscription, ctx_sink = sink,
                    ctx_template = None, ctx_payload = None, ctx_headers = None\<rparr>
                   (subscriptions s2)\<rparr>
      in s3\<lparr>subscriptionCounts :=
               incrementCount (subscriptionCounts s3) (mc_serverKey connection) subject\<rparr>)"

definition registerReplyHandler :: "world \<Rightarrow> string \<Rightarrow> string option \<Rightarrow> string option
    \<Rightarrow> nat \<Rightarrow> string \<Rightarrow> headerMap option \<Rightarrow> managedConnection \<Rightarrow> session \<Rightarrow> session" where
  "registerReplyHandler w subject template payload sink key replyHeaders connection s1 =
     (let subscription = w_subscribe w (events s1) (mc_connection connection) subject;
          s2 = record_event
                 (SubscribeCall (nc_id (mc_connection connection)) subject subscription) s1;
          s3 = s2\<lparr>replies := AList.update key
                   \<lparr>ctx_subject = subject, ctx_server = mc_serverKey connection,
                    ctx_subscription = subscription, ctx_sink = sink,
                    ctx_template = template, ctx_payload = payload,
                    ctx_headers = replyHeaders\<rparr>
                   (replies s2)\<rparr>
      in s3\<lparr>replyCounts :=
               incrementCount (replyCounts s3) (mc_serverKey connection) subject\<rparr>)"

text \<open>\<open>stopContext\<close> works on the store and the counter map it is given; the model
  returns both, and the trace with the \<open>unsubscribe\<close> call.\<close>

definition stopContext :: "(string \<times> subscriptionContext) list \<Rightarrow> string \<Rightarrow> (string \<times> int) list
    \<Rightarrow> event list
    \<Rightarrow> (string \<times> subscriptionContext) list \<times> (string \<times> int) list \<times> event list" where
  "stopContext store key counts evs =
     (case map_of store key of
        None \<Rightarrow> (store, counts, evs)
      | Some c \<Rightarrow>
          (AList.delete key store,
           decrementCount counts (ctx_server c) (ctx_subject c),
           evs @ [UnsubscribeCall (ctx_subscription c)]))"

definition stopSubscription :: "string \<Rightarrow> session \<Rightarrow> session" where
  "stopSubscription key s =
     (case stopContext (subscriptions s) key (subscriptionCounts s) (events s) of
        (store, counts, evs) \<Rightarrow>
          s\<lparr>subscriptions := store, subscriptionCounts := counts, events := evs\<rparr>)"

definition stopReplyHandler :: "string \<Rightarrow> session \<Rightarrow> session" where
  "stopReplyHandler key s =
     (case stopContext (replies s) key (replyCounts s) (events s) of
        (store, counts, evs) \<Rightarrow>
          s\<lparr>replies := store, replyCounts := counts, events := evs\<rparr>)"

definition markConnectionClosed :: "string \<Rightarrow> session \<Rightarrow> session" where
  "markConnectionClosed serverKey s =
     (case map_of (connections s) serverKey of
        None \<Rightarrow> s
      | Some connection \<Rightarrow>
          s\<lparr>connections :=
              AList.update serverKey (connection\<lparr>mc_markedClosed := True\<rparr>) (connections s)\<rparr>)"

fun stopSubscriptions :: "(string \<times> subscriptionContext) list \<Rightarrow> session \<Rightarrow> session" where
  \<comment> \<open>\<open>for (const sub of subsToReconnect) this.stopContext(this.subscriptions, sub.key, ...)\<close>\<close>
  "stopSubscriptions [] s = s"
| "stopSubscriptions ((key, c) # rest) s = stopSubscriptions rest (stopSubscription key s)"

fun stopReplyHandlers :: "(string \<times> subscriptionContext) list \<Rightarrow> session \<Rightarrow> session" where
  "stopReplyHandlers [] s = s"
| "stopReplyHandlers ((key, c) # rest) s = stopReplyHandlers rest (stopReplyHandler key s)"

fun restartSubscriptions :: "world \<Rightarrow> string \<Rightarrow> (string \<times> subscriptionContext) list \<Rightarrow> session
    \<Rightarrow> (error + unit) \<times> session" where
  "restartSubscriptions w rawUrl [] s = (Inr (), s)"
| "restartSubscriptions w rawUrl ((key, c) # rest) s =
     (case startSubscription w rawUrl (ctx_subject c) (ctx_sink c) key s of
        (Inl e, s1) \<Rightarrow> (Inl e, s1)
      | (Inr u, s1) \<Rightarrow> restartSubscriptions w rawUrl rest s1)"

fun restartReplyHandlers :: "world \<Rightarrow> string \<Rightarrow> (string \<times> subscriptionContext) list \<Rightarrow> session
    \<Rightarrow> (error + unit) \<times> session" where
  "restartReplyHandlers w rawUrl [] s = (Inr (), s)"
| "restartReplyHandlers w rawUrl ((key, c) # rest) s =
     (case startReplyHandler w rawUrl (ctx_subject c) (ctx_template c) (ctx_payload c)
             (ctx_sink c) key (ctx_headers c) s of
        (Inl e, s1) \<Rightarrow> (Inl e, s1)
      | (Inr u, s1) \<Rightarrow> restartReplyHandlers w rawUrl rest s1)"

definition boundTo :: "string \<Rightarrow> (string \<times> subscriptionContext) list
    \<Rightarrow> (string \<times> subscriptionContext) list" where
  \<comment> \<open>the entries whose context has \<open>ctx.server === serverKey\<close>, in the map's order\<close>
  "boundTo serverKey store = filter (\<lambda>(key, c). ctx_server c = serverKey) store"

text \<open>\<open>reconnectConnection\<close>, statement by statement: the lookup, the two capture
  loops, the connector call, the two teardown loops, the close of the old connection,
  the new table entry, the two restart loops. An exception leaves the function with the
  state as it is at that point.\<close>

definition reconnectConnection :: "world \<Rightarrow> string \<Rightarrow> session \<Rightarrow> (error + int) \<times> session" where
  "reconnectConnection w serverKey s =
     (case map_of (connections s) serverKey of
        None \<Rightarrow> (Inl (Error (''No connection found for server: '' @ serverKey)), s)
      | Some existing \<Rightarrow>
          (let subsToReconnect = boundTo serverKey (subscriptions s);
               repliesToReconnect = boundTo serverKey (replies s)
           in (case buildConnectOptions w (mc_rawUrl existing) of
                 Inl e \<Rightarrow> (Inl e, s)
               | Inr options \<Rightarrow>
                   (case w_connector w (events s) options of
                      Inl e \<Rightarrow> (Inl e, record_event (ConnectCall options) s)
                    | Inr newConnection \<Rightarrow>
                        (let s1 = record_event (ConnectCall options) s;
                             s2 = stopSubscriptions subsToReconnect s1;
                             s3 = stopReplyHandlers repliesToReconnect s2;
                             s4 = record_event (CloseCall (nc_id (mc_connection existing))) s3
                         in (case w_close w (events s3) (mc_connection existing) of
                               Some e \<Rightarrow> (Inl e, s4)
                             | None \<Rightarrow>
                                 (let managed = \<lparr>mc_serverKey = serverKey,
                                        mc_rawUrl = mc_rawUrl existing,
                                        mc_connection = newConnection,
                                        mc_markedClosed = False\<rparr>;
                                      s5 = s4\<lparr>connections :=
                                             AList.update serverKey managed (connections s4)\<rparr>
                                  in (case restartSubscriptions w (mc_rawUrl existing)
                                             subsToReconnect s5 of
                                        (Inl e, s6) \<Rightarrow> (Inl e, s6)
                                      | (Inr u, s6) \<Rightarrow>
                                          (case restartReplyHandlers w (mc_rawUrl existing)
                                                  repliesToReconnect s6 of
                                             (Inl e, s7) \<Rightarrow> (Inl e, s7)
                                           | (Inr u', s7) \<Rightarrow>
                                               (Inr (int (length subsToReconnect)
                                                     + int (length repliesToReconnect)),
                                                s7))))))))))"

fun closeAll :: "world \<Rightarrow> (string \<times> managedConnection) list \<Rightarrow> session \<Rightarrow> session" where
  "closeAll w [] s = s"
| "closeAll w ((k, entry) # rest) s =
     closeAll w rest (record_event (CloseCall (nc_id (mc_connection entry))) s)"

definition reset :: "world \<Rightarrow> session \<Rightarrow> session" where
  \<comment> \<open>\<open>Promise.allSettled\<close> waits for every close and never rejects\<close>
  "reset w s =
     (let s1 = stopSubscriptions (subscriptions s) s;
          s2 = stopReplyHandlers (replies s1) s1;
          s3 = closeAll w (connections s2) s2
      in s3\<lparr>connections := []\<rparr>)"

record jetStreamPullOptions =
  pull_batchSize :: int
  pull_timeoutMs :: int

fun includesText :: "string \<Rightarrow> string \<Rightarrow> bool" where
  "includesText [] t = (t = [])"
| "includesText (c # cs) t = (startsWith (c # cs) t \<or> includesText cs t)"

definition pullMeta :: "string \<Rightarrow> string \<Rightarrow> string \<Rightarrow> string \<Rightarrow> (string \<times> string) list" where
  "pullMeta ts prefix stream durable =
     [(''timestamp'', ts), (''connection'', prefix), (''stream'', stream),
      (''durable'', durable)]"

text \<open>The body of the \<open>for await\<close> loop of \<open>pullJetStream\<close>, over the messages the
  iterator yields. A failure of the clock or of the sink leaves the loop; a failure of
  \<open>ack\<close> is caught inside it.\<close>

fun pullLoop :: "world \<Rightarrow> managedConnection \<Rightarrow> string \<Rightarrow> string \<Rightarrow> string \<Rightarrow> nat \<Rightarrow> msgLike list
    \<Rightarrow> session \<Rightarrow> (error + unit) \<times> session" where
  "pullLoop w connection prefix stream durable sink [] s = (Inr (), s)"
| "pullLoop w connection prefix stream durable sink (msg # msgs) s =
     (case timestamp w s of
        Inl e \<Rightarrow> (Inl e, s)
      | Inr ts \<Rightarrow>
          (case appendLogBlock w sink
                  \<lparr>log_meta = pullMeta ts prefix stream durable,
                   log_items = [\<lparr>item_title = ''Received'', item_body = Some (msg_string msg),
                                 item_headers = readMsgHeaders (msg_headers msg)\<rparr>]\<rparr>
                  (Some []) s of
             (Inl e, s1) \<Rightarrow> (Inl e, s1)
           | (Inr u, s1) \<Rightarrow>
               (case msg_ack msg of
                  None \<Rightarrow> pullLoop w connection prefix stream durable sink msgs s1
                | Some None \<Rightarrow>
                    pullLoop w connection prefix stream durable sink msgs
                      (record_event (AckCall msg) s1)
                | Some (Some err) \<Rightarrow>
                    (let s2 = record_event (AckCall msg) s1;
                         errorMsg = formatError err;
                         s3 = (if includesText errorMsg ''DISCONNECT''
                                  \<or> includesText errorMsg ''CONNECTION''
                               then markConnectionClosed (mc_serverKey connection) s2 else s2)
                     in (case timestamp w s3 of
                           Inl e \<Rightarrow> (Inl e, s3)
                         | Inr ts' \<Rightarrow>
                             (case appendLogBlock w sink
                                     \<lparr>log_meta = pullMeta ts' prefix stream durable,
                                      log_items = [\<lparr>item_title = ''Ack error'',
                                                    item_body = Some (formatError err),
                                                    item_headers = None\<rparr>]\<rparr>
                                     (Some []) s3 of
                                (Inl e, s4) \<Rightarrow> (Inl e, s4)
                              | (Inr u', s4) \<Rightarrow>
                                  pullLoop w connection prefix stream durable sink msgs s4))))))"

definition pullNotice :: "world \<Rightarrow> string \<Rightarrow> string \<Rightarrow> string \<Rightarrow> nat \<Rightarrow> string \<Rightarrow> string option
    \<Rightarrow> session \<Rightarrow> (error + unit) \<times> session" where
  \<comment> \<open>the record of one titled item that ends a pull, \<open>No messages available\<close> or
      \<open>Pull error\<close>: the clock is read, then the record goes to the sink\<close>
  "pullNotice w prefix stream durable sink title body s =
     (case timestamp w s of
        Inl e \<Rightarrow> (Inl e, s)
      | Inr ts \<Rightarrow>
          appendLogBlock w sink
            \<lparr>log_meta = pullMeta ts prefix stream durable,
             log_items = [\<lparr>item_title = title, item_body = body, item_headers = None\<rparr>]\<rparr>
            None s)"

text \<open>The \<open>try\<close> block of \<open>pullJetStream\<close>: the consumer lookup, the fetch, the loop over
  the messages and, when there was none, the notice. \<open>Inl e\<close> is the exception that
  reaches the \<open>catch\<close> clause.\<close>

definition pullAttempt :: "world \<Rightarrow> managedConnection \<Rightarrow> nat \<Rightarrow> string \<Rightarrow> string \<Rightarrow> string
    \<Rightarrow> int \<Rightarrow> int \<Rightarrow> nat \<Rightarrow> session \<Rightarrow> (error + unit) \<times> session" where
  "pullAttempt w connection js prefix stream durable batchSize expires sink s =
     (let s1 = record_event (ConsumerGetCall js stream durable) s in
      (case w_consumersGet w (events s) js stream durable of
         Inl e \<Rightarrow> (Inl e, s1)
       | Inr consumer \<Rightarrow>
           (let s2 = record_event (FetchCall consumer batchSize expires) s1 in
            (case w_fetch w (events s1) consumer batchSize expires of
               Inl e \<Rightarrow> (Inl e, s2)
             | Inr (msgs, failure) \<Rightarrow>
                 (case pullLoop w connection prefix stream durable sink msgs s2 of
                    (Inl e, s3) \<Rightarrow> (Inl e, s3)
                  | (Inr u, s3) \<Rightarrow>
                      (case failure of
                         Some e \<Rightarrow> (Inl e, s3)
                       | None \<Rightarrow>
                           if length msgs = 0
                           then pullNotice w prefix stream durable sink
                                  ''No messages available'' None s3
                           else (Inr (), s3)))))))"

text \<open>\<open>pullJetStream\<close>: the acquisition, the test of the member \<open>jetstream\<close> and the
  call \<open>nc.jetstream()\<close> stand before the \<open>try\<close>, so what they throw reaches the caller;
  what the \<open>try\<close> block throws reaches the \<open>catch\<close> clause, which reads the clock and
  hands the \<open>Pull error\<close> record to the sink, outside any \<open>try\<close>.\<close>

definition pullJetStream :: "world \<Rightarrow> string \<Rightarrow> string \<Rightarrow> string \<Rightarrow> jetStreamPullOptions \<Rightarrow> nat
    \<Rightarrow> session \<Rightarrow> (error + unit) \<times> session" where
  "pullJetStream w serverUrl stream durable options sink s =
     (case getConnection w serverUrl s of
        (Inl e, s1) \<Rightarrow> (Inl e, s1)
      | (Inr connection, s1) \<Rightarrow>
          (let nc = mc_connection connection in
           if \<not> nc_jetstream nc then
             (Inl (Error ''JetStream is not available on this connection''), s1)
           else
             (case w_jetstream w (events s1) nc of
                Inl e \<Rightarrow> (Inl e, record_event (JetstreamCall (nc_id nc)) s1)
              | Inr js \<Rightarrow>
                  (let batchSize = max 1 (pull_batchSize options);
                       expires = max 1000 (pull_timeoutMs options);
                       prefix = connectionInfo nc
                   in (case pullAttempt w connection js prefix stream durable batchSize expires
                              sink (record_event (JetstreamCall (nc_id nc)) s1) of
                         (Inr u, s2) \<Rightarrow> (Inr (), s2)
                       | (Inl e, s2) \<Rightarrow>
                           pullNotice w prefix stream durable sink ''Pull error''
                             (Some (formatError e)) s2)))))"

section \<open>Vocabulary of the session theorems\<close>

definition pairKey :: "subscriptionContext \<Rightarrow> string" where
  \<comment> \<open>the counter key of the (connection, subject) pair of a context\<close>
  "pairKey c = subjectKey (ctx_server c) (ctx_subject c)"

definition contextsOf :: "(string \<times> subscriptionContext) list \<Rightarrow> string \<Rightarrow> nat" where
  \<comment> \<open>how many registered contexts have the counter key \<open>k\<close>\<close>
  "contextsOf store k = length (filter (\<lambda>(key, c). pairKey c = k) store)"

text \<open>The invariant that ties a counter map to its context map when the operations of
  the session run one at a time: both have each key once, and a counter key is present
  exactly when a context has it, with the number of those contexts as its value.\<close>

definition countsAgree :: "(string \<times> subscriptionContext) list \<Rightarrow> (string \<times> int) list \<Rightarrow> bool" where
  "countsAgree store counts =
     (distinct (map fst store) \<and> distinct (map fst counts) \<and>
      (\<forall>k. map_of counts k =
             (if contextsOf store k = 0 then None else Some (int (contextsOf store k)))))"

definition sessionInvariant :: "session \<Rightarrow> bool" where
  "sessionInvariant s =
     (countsAgree (subscriptions s) (subscriptionCounts s) \<and>
      countsAgree (replies s) (replyCounts s))"

text \<open>What is left of it when calls overlap: both maps have each key once, and a counter
  is at least the number of the contexts of its pair.\<close>

definition countsCover :: "(string \<times> subscriptionContext) list \<Rightarrow> (string \<times> int) list \<Rightarrow> bool" where
  "countsCover store counts =
     (distinct (map fst store) \<and> distinct (map fst counts) \<and>
      (\<forall>k. int (contextsOf store k) \<le> countOf counts k))"

definition sessionCovered :: "session \<Rightarrow> bool" where
  "sessionCovered s =
     (countsCover (subscriptions s) (subscriptionCounts s) \<and>
      countsCover (replies s) (replyCounts s))"

definition suffixTotal :: "string \<Rightarrow> (string \<times> int) list \<Rightarrow> int" where
  "suffixTotal subject store =
     sum_list (map snd (filter (\<lambda>(key, v). endsWith key (''|'' @ subject)) store))"











text \<open>The invariant of the connection table: an entry is stored under its own server key,
  which is the normalised form of its raw URL.\<close>

definition tableInvariant :: "world \<Rightarrow> session \<Rightarrow> bool" where
  "tableInvariant w s =
     list_all (\<lambda>(k, m). mc_serverKey m = k \<and> normalizeServerUrl w (mc_rawUrl m) = Inr k)
       (connections s)"

text \<open>The states a session reaches from the empty one when its operations run one at a
  time, each from its call to its return before the next is called.\<close>

inductive reachableInTurn :: "world \<Rightarrow> session \<Rightarrow> bool" for w :: world where
    fresh: "reachableInTurn w emptySession"
  | acquire: "reachableInTurn w s \<Longrightarrow> reachableInTurn w (snd (getConnection w rawUrl s))"
  | startSub: "reachableInTurn w s \<Longrightarrow>
      reachableInTurn w (snd (startSubscription w serverUrl subject sink key s))"
  | stopSub: "reachableInTurn w s \<Longrightarrow> reachableInTurn w (stopSubscription key s)"
  | startReply: "reachableInTurn w s \<Longrightarrow>
      reachableInTurn w
        (snd (startReplyHandler w serverUrl subject template payload sink key hdrs s))"
  | stopReply: "reachableInTurn w s \<Longrightarrow> reachableInTurn w (stopReplyHandler key s)"
  | pull: "reachableInTurn w s \<Longrightarrow>
      reachableInTurn w (snd (pullJetStream w serverUrl stream durable options sink s))"
  | mark: "reachableInTurn w s \<Longrightarrow> reachableInTurn w (markConnectionClosed serverKey s)"
  | reconnect: "reachableInTurn w s \<Longrightarrow>
      reachableInTurn w (snd (reconnectConnection w serverKey s))"
  | reset: "reachableInTurn w s \<Longrightarrow> reachableInTurn w (reset w s)"

text \<open>The states a session reaches when its calls overlap. JavaScript runs the code
  between two \<open>await\<close>s undisturbed, and every such segment of the session is a sequence
  of the steps below: a call on a collaborator (\<open>emit\<close>), \<open>connections.set\<close> with an
  entry stored under the normal form of its raw URL (\<open>install\<close>), \<open>markConnectionClosed\<close>,
  \<open>connections.clear\<close>, the registration that ends \<open>startSubscription\<close> or
  \<open>startReplyHandler\<close>, and \<open>stopContext\<close> on either map. The relation takes the steps
  in any order and with any arguments, so it holds of every state that an interleaving of
  calls reaches.\<close>

inductive reachable :: "world \<Rightarrow> session \<Rightarrow> bool" for w :: world where
    fresh: "reachable w emptySession"
  | emit: "reachable w s \<Longrightarrow> reachable w (record_event e s)"
  | install: "reachable w s \<Longrightarrow> normalizeServerUrl w (mc_rawUrl m) = Inr (mc_serverKey m) \<Longrightarrow>
      reachable w (s\<lparr>connections := AList.update (mc_serverKey m) m (connections s)\<rparr>)"
  | mark: "reachable w s \<Longrightarrow> reachable w (markConnectionClosed serverKey s)"
  | clear: "reachable w s \<Longrightarrow> reachable w (s\<lparr>connections := []\<rparr>)"
  | registerSub: "reachable w s \<Longrightarrow>
      reachable w (registerSubscription w subject sink key connection s)"
  | registerReply: "reachable w s \<Longrightarrow>
      reachable w (registerReplyHandler w subject template payload sink key hdrs connection s)"
  | stopSub: "reachable w s \<Longrightarrow> reachable w (stopSubscription key s)"
  | stopReply: "reachable w s \<Longrightarrow> reachable w (stopReplyHandler key s)"

section \<open>Example inputs\<close>

definition percentURL :: url where
  \<comment> \<open>what \<open>new URL("nats://demo/%")\<close> gives: a percent sign that starts no escape is
      kept in the path as it is\<close>
  "percentURL = \<lparr>url_protocol = ''nats:'', url_username = [], url_password = [],
     url_hostname = ''demo'', url_port = [], url_pathname = ''/%''\<rparr>"

definition percentOnlyURL :: "string \<Rightarrow> url option" where
  "percentOnlyURL v = (if v = ''nats://demo/%'' then Some percentURL else None)"

definition replyBlock :: "rawLine list" where
  "replyBlock =
     [\<lparr>line_text = ''REPLY lab.greet'', lineNumber = 0\<rparr>,
      \<lparr>line_text = ''NATS-Server: nats://demo'', lineNumber = 1\<rparr>,
      \<lparr>line_text = [], lineNumber = 2\<rparr>,
      \<lparr>line_text = ''Hello, $json.name!'', lineNumber = 3\<rparr>]"

definition replyAction :: natsAction where
  "replyAction =
     \<lparr>action_type = Reply, action_subject = ''lab.greet'', action_lineNumber = 0,
      action_server = Some ''nats://demo'', action_data = None,
      action_template = Some ''Hello, $json.name!'', action_stream = None,
      action_durable = None, action_batchSize = None, action_timeoutMs = None,
      action_headers = None\<rparr>"

definition valueMessage :: msgLike where
  \<comment> \<open>a request whose body is \<open>{"value":5}\<close>\<close>
  "valueMessage =
     \<lparr>msg_subject = ''lab.greet'', msg_reply = Some ''inbox'', msg_headers = None,
      msg_string = [CHR ''{'', CHR 0x22, CHR ''v'', CHR ''a'', CHR ''l'', CHR ''u'', CHR ''e'',
                    CHR 0x22, CHR '':'', CHR ''5'', CHR ''}''],
      msg_json = Some (JObject [(''value'', JNumber ''5'')]), msg_ack = None\<rparr>"

definition demoURL :: url where
  "demoURL = \<lparr>url_protocol = ''nats:'', url_username = [], url_password = [],
     url_hostname = ''demo'', url_port = [], url_pathname = []\<rparr>"

definition otherURL :: url where
  "otherURL = \<lparr>url_protocol = ''nats:'', url_username = [], url_password = [],
     url_hostname = ''other'', url_port = [], url_pathname = []\<rparr>"

definition demoOptions :: natsConnectOptions where
  "demoOptions = \<lparr>opt_servers = [''nats://demo''], opt_user = None, opt_pass = None\<rparr>"

definition plainConnection :: "nat \<Rightarrow> natsConnection" where
  "plainConnection i = \<lparr>nc_id = i, nc_client_id = None, nc_host = None, nc_port = None,
     nc_jetstream = True\<rparr>"

text \<open>A world in which every call succeeds: a connection and a subscription handle are
  numbered by the length of the trace at their creation, and a pull finds no message.\<close>

definition steadyWorld :: world where
  "steadyWorld =
     \<lparr>w_newURL = (\<lambda>v. if v = ''nats://demo'' then Some demoURL
                       else if v = ''nats://other'' then Some otherURL else None),
      w_connector = (\<lambda>evs options. Inr (plainConnection (length evs))),
      w_subscribe = (\<lambda>evs connection subject. length evs),
      w_close = (\<lambda>evs connection. None),
      w_now = (\<lambda>evs. Inr ''2024-01-01T00:00:00.000Z''),
      w_append = (\<lambda>evs sink block. None),
      w_jetstream = (\<lambda>evs connection. Inr 0),
      w_consumersGet = (\<lambda>evs js stream durable. Inr 0),
      w_fetch = (\<lambda>evs consumer batchSize expires. Inr ([], None))\<rparr>"

definition flakyWorld :: world where
  \<comment> \<open>the connector succeeds on its first call and fails from then on\<close>
  "flakyWorld = steadyWorld\<lparr>w_connector :=
     (\<lambda>evs options. if evs = [] then Inr (plainConnection 0)
                     else Inl (Error ''connect failed''))\<rparr>"






definition demoManaged :: managedConnection where
  "demoManaged = \<lparr>mc_serverKey = ''nats://demo'', mc_rawUrl = ''nats://demo'',
     mc_connection = plainConnection 0, mc_markedClosed = False\<rparr>"

definition metricsContext :: subscriptionContext where
  "metricsContext = \<lparr>ctx_subject = ''lab.metrics'', ctx_server = ''nats://demo'',
     ctx_subscription = 1, ctx_sink = 0, ctx_template = None, ctx_payload = None,
     ctx_headers = None\<rparr>"

definition greetContext :: subscriptionContext where
  "greetContext = \<lparr>ctx_subject = ''lab.greet'', ctx_server = ''nats://demo'',
     ctx_subscription = 2, ctx_sink = 0, ctx_template = Some ''Hello'', ctx_payload = None,
     ctx_headers = None\<rparr>"

text \<open>The session after \<open>startSubscription\<close> for \<open>lab.metrics\<close> under the key
  \<open>sub-key\<close> and \<open>startReplyHandler\<close> for \<open>lab.greet\<close> under the key \<open>reply-key\<close>, both
  on \<open>nats://demo\<close>.\<close>

definition activeSession :: session where
  "activeSession =
     \<lparr>connections = [(''nats://demo'', demoManaged)],
      subscriptions = [(''sub-key'', metricsContext)],
      replies = [(''reply-key'', greetContext)],
      subscriptionCounts = [(''nats://demo|lab.metrics'', 1)],
      replyCounts = [(''nats://demo|lab.greet'', 1)],
      events = [ConnectCall demoOptions, SubscribeCall 0 ''lab.metrics'' 1,
                SubscribeCall 0 ''lab.greet'' 2]\<rparr>"

text \<open>The session with a connection to \<open>nats://demo\<close> and nothing registered, and the
  session that two overlapping calls of \<open>startSubscription\<close> for \<open>lab.metrics\<close> with
  the key \<open>sub-key\<close> leave from it: each call tests the key and is given the connection
  before either registers.\<close>

definition connectedSession :: session where
  "connectedSession =
     \<lparr>connections = [(''nats://demo'', demoManaged)], subscriptions = [], replies = [],
      subscriptionCounts = [], replyCounts = [], events = [ConnectCall demoOptions]\<rparr>"


definition overlappedSession :: session where
  "overlappedSession =
     registerSubscription steadyWorld ''lab.metrics'' 0 ''sub-key'' demoManaged
       (registerSubscription steadyWorld ''lab.metrics'' 0 ''sub-key'' demoManaged
          connectedSession)"


section \<open>Properties of the segmenter\<close>

lemma splitLines_nonempty: "splitLines s \<noteq> []"
  by (induction s rule: splitLines.induct) (auto split: list.splits)

lemma numberedLines_Nil: "numberedLines i [] = []"
  by (simp add: numberedLines_def)

lemma numberedLines_Cons:
  "numberedLines i (l # ls) = \<lparr>line_text = l, lineNumber = i\<rparr> # numberedLines (Suc i) ls"
  by (simp add: numberedLines_def upt_rec)

lemma flushBlock_lines:
  "concat (map segmentLines (fst (flushBlock (segs, cur)))) = concat (map segmentLines segs) @ cur"
  by (simp add: flushBlock_def)

lemma flushBlock_snd: "snd (flushBlock st) = []"
  by (cases st) (simp add: flushBlock_def)

text \<open>The loop invariant of the segmenter: the lines of the segments pushed so far,
  then the lines of the open block, then the lines not yet read, are the lines of the
  document.\<close>

lemma segmentLoop_lines:
  "concat (map segmentLines (fst (flushBlock (segmentLoop i ls (segs, cur)))))
     = concat (map segmentLines segs) @ cur @ numberedLines i ls"
proof (induction ls arbitrary: i segs cur)
  case Nil
  show ?case by (simp add: flushBlock_lines numberedLines_Nil)
next
  case (Cons raw ls)
  show ?case
  proof (cases "isBlockDelimiter raw")
    case True
    obtain segs' cur' where f: "flushBlock (segs, cur) = (segs', cur')"
      by (cases "flushBlock (segs, cur)")
    have c: "cur' = []" using flushBlock_snd [of "(segs, cur)"] f by simp
    have l: "concat (map segmentLines segs') = concat (map segmentLines segs) @ cur"
      using flushBlock_lines [of segs cur] f c by simp
    show ?thesis
      using True f c l
        Cons.IH [of "Suc i" "segs' @ [Delimiter \<lparr>line_text = raw, lineNumber = i\<rparr>]" "[]"]
      by (simp add: numberedLines_Cons)
  next
    case False
    then show ?thesis
      using Cons.IH [of "Suc i" segs "cur @ [\<lparr>line_text = raw, lineNumber = i\<rparr>]"]
      by (simp add: numberedLines_Cons)
  qed
qed

lemma segmentLoop_never_empty:
  "ls \<noteq> [] \<Longrightarrow> fst (flushBlock (segmentLoop i ls (segs, cur))) \<noteq> []"
proof -
  assume ne: "ls \<noteq> []"
  have "numberedLines i ls \<noteq> []"
    using ne by (cases ls) (simp_all add: numberedLines_Cons)
  then have "concat (map segmentLines (fst (flushBlock (segmentLoop i ls (segs, cur))))) \<noteq> []"
    unfolding segmentLoop_lines by simp
  then show ?thesis by auto
qed

lemma map_text_numberedLines: "map line_text (numberedLines i ls) = ls"
  by (induction ls arbitrary: i) (simp_all add: numberedLines_Nil numberedLines_Cons)

text \<open>The segments hold every line of the document once, in order, each with its
  zero-based line number. The split of a text is never empty, so the loop always
  pushes a segment and the substitute \<open>[Block []]\<close> is never returned.\<close>

lemma segment_rejoin:
  "concat (map segmentLines (segmentNatsDocument doc)) = numberedLines 0 (splitLines doc)"
  using segmentLoop_never_empty [OF splitLines_nonempty, of 0 doc "[]" "[]"]
    segmentLoop_lines [of 0 "splitLines doc" "[]" "[]"]
  by (simp add: segmentNatsDocument_def Let_def)

lemma segments_never_synthetic: "segmentNatsDocument doc \<noteq> [Block []]"
proof
  assume "segmentNatsDocument doc = [Block []]"
  then have "numberedLines 0 (splitLines doc) = []"
    using segment_rejoin [of doc] by simp
  then show False
    using splitLines_nonempty [of doc]
    by (cases "splitLines doc") (simp_all add: numberedLines_Cons)
qed

text \<open>
  Claim C6. For every document text, the line texts of the segments that
  \<open>segmentNatsDocument\<close> returns, block lines and delimiter lines taken in order, are
  the lines of the document (its split at \<open>/\r?\n/\<close>). The exception the claim allows
  for, the substitute single block without lines, is never needed: no text has zero
  segments (\<open>segments_never_synthetic\<close>).
\<close>

theorem segments_rejoin_to_document_lines:
  "map line_text (concat (map segmentLines (segmentNatsDocument doc))) = splitLines doc"
  by (simp add: segment_rejoin map_text_numberedLines)

section \<open>Properties of the block parser\<close>

lemma finishAction_reply:
  "finishAction ty ln h m b c = Some a \<Longrightarrow> action_type a = Reply
     \<Longrightarrow> action_template a = None \<or> action_data a = None"
  by (auto simp: finishAction_def Let_def split: if_splits)

lemma finish_of_parse:
  "parseActionFromBlock newURL gen n lines = Inr (Some a, n') \<Longrightarrow>
   \<exists>ty ln h m b c. finishAction ty ln h m b c = Some a"
  unfolding parseActionFromBlock_def Let_def
  by (simp split: if_splits option.splits prod.splits sum.splits) blast

text \<open>
  Claim C5. For every block that parses into a Reply action, at most one of the fields
  \<open>template\<close> and \<open>data\<close> is set: one of the two is always absent, so either exactly
  one is set or both are absent.
\<close>

theorem reply_template_data_exclusive:
  "parseActionFromBlock newURL gen n lines = Inr (Some a, n') \<Longrightarrow> action_type a = Reply
     \<Longrightarrow> action_template a = None \<or> action_data a = None"
proof -
  assume parsed: "parseActionFromBlock newURL gen n lines = Inr (Some a, n')"
    and reply: "action_type a = Reply"
  obtain ty ln h m b c where "finishAction ty ln h m b c = Some a"
    using finish_of_parse [OF parsed] by blast
  then show ?thesis using reply by (rule finishAction_reply)
qed

theorem reply_template_data_exclusive_witness:
  "parseActionFromBlock (\<lambda>v. None) (\<lambda>k. []) 0 replyBlock = Inr (Some replyAction, 0)
   \<and> action_type replyAction = Reply
   \<and> action_template replyAction = Some ''Hello, $json.name!''
   \<and> (action_template replyAction = None \<or> action_data replyAction = None)"
proof -
  have parsed: "parseActionFromBlock (\<lambda>v. None) (\<lambda>k. []) 0 replyBlock = Inr (Some replyAction, 0)"
    by code_simp
  have reply: "action_type replyAction = Reply"
    by (simp add: replyAction_def)
  show ?thesis
    using parsed reply reply_template_data_exclusive [OF parsed reply]
    by (simp add: replyAction_def)
qed

lemma segment_percent:
  "segmentNatsDocument ''SUBSCRIBE nats://demo/%''
     = [Block [\<lparr>line_text = ''SUBSCRIBE nats://demo/%'', lineNumber = 0\<rparr>]]"
  by code_simp

lemma request_line_percent:
  "findRequestLineIndex [\<lparr>line_text = ''SUBSCRIBE nats://demo/%'', lineNumber = 0\<rparr>] = Some 0"
  "trim ''SUBSCRIBE nats://demo/%'' = ''SUBSCRIBE nats://demo/%''"
  "firstToken ''SUBSCRIBE nats://demo/%'' = ''SUBSCRIBE''"
  "mapKeyword ''SUBSCRIBE'' = Some Subscribe"
  "trim '' nats://demo/%'' = ''nats://demo/%''"
  "trim ''nats://demo/%'' = ''nats://demo/%''"
  by code_simp+

lemma decodeSubject_percent: "decodeSubject ''/%'' = Inl URIError"
  by code_simp

lemma nats_supported: "''nats:'' \<in> set SUPPORTED_PROTOCOLS"
  by code_simp

lemma resolve_percent:
  "newURL ''nats://demo/%'' = Some percentURL \<Longrightarrow>
   resolveConnection newURL ''nats://demo/%'' [] = Inl URIError"
  by (simp add: resolveConnection_def Let_def request_line_percent tryParseUrl_def
      percentURL_def decodeSubject_percent nats_supported)

text \<open>
  Claim C1 says that \<open>parseNatsDocument\<close> returns normally for every input text. The
  code does not: \<open>tryParseUrl\<close> catches the exception of \<open>new URL\<close>, but
  \<open>decodeSubject\<close> calls \<open>decodeURIComponent\<close> on the path outside any \<open>try\<close>. For the
  document \<open>SUBSCRIBE nats://demo/%\<close> the URL parser accepts the target and keeps the
  path \<open>/%\<close>; decoding it throws \<open>URIError\<close>, which leaves \<open>resolveConnection\<close>,
  \<open>parseActionFromBlock\<close> and \<open>parseNatsDocument\<close>.
\<close>

theorem parse_raises_on_malformed_escape:
  "newURL ''nats://demo/%'' = Some percentURL \<Longrightarrow>
   parseNatsDocument newURL gen ''SUBSCRIBE nats://demo/%'' = Inl URIError"
  by (simp add: parseNatsDocument_def segment_percent parseActionFromBlock_def
      request_line_percent Let_def parseHeaders_def partitionHeaders_def collectBody_def
      resolve_percent)

theorem parse_raises_on_malformed_escape_witness:
  "percentOnlyURL ''nats://demo/%'' = Some percentURL
   \<and> parseNatsDocument percentOnlyURL (\<lambda>k. []) ''SUBSCRIBE nats://demo/%'' = Inl URIError"
proof -
  have parsed: "percentOnlyURL ''nats://demo/%'' = Some percentURL"
    by (simp add: percentOnlyURL_def)
  show ?thesis
    using parsed parse_raises_on_malformed_escape [of percentOnlyURL "\<lambda>k. []"] by simp
qed

section \<open>Properties of the template interpolator\<close>

lemma greet_first_passes:
  "replaceTokens ''$msg.headers.'' isHeaderNameChar (headerValue valueMessage)
     (replaceLiteral ''$msg.subject'' (msg_subject valueMessage)
        (replaceLiteral ''$msg.data'' (safeStringResponse valueMessage) ''Hello, $json.name!'' 0) 0)
   = ''Hello, $json.name!''"
  by code_simp

lemma greet_json_pass:
  "replaceTokens ''$json.'' isWordChar f ''Hello, $json.name!'' = ''Hello, '' @ f ''name'' @ ''!''"
  by code_simp

lemma greet_absent:
  "builtinMember (JObject [(''value'', JNumber ''5'')]) ''name'' = None \<Longrightarrow>
   jsonReplacement builtinMember valueMessage ''name'' = [CHR 0x22, CHR 0x22]"
  by (simp add: jsonReplacement_def valueMessage_def fieldOf_def quoteJsonString_def)

text \<open>What the replacement function gives in the cases where the code does what claim
  C4 says: the empty string for a body that is not JSON, a string field as it is, and
  the JSON text of a field that is neither a string nor \<open>null\<close>.\<close>

lemma jsonReplacement_undecodable:
  "msg_json msg = None \<Longrightarrow> jsonReplacement builtinMember msg key = []"
  by (simp add: jsonReplacement_def)

lemma jsonReplacement_string:
  "msg_json msg = Some (JObject members) \<Longrightarrow> map_of members key = Some (JString v) \<Longrightarrow>
   jsonReplacement builtinMember msg key = v"
  by (simp add: jsonReplacement_def fieldOf_def)

lemma jsonReplacement_encoded:
  "msg_json msg = Some (JObject members) \<Longrightarrow> map_of members key = Some v \<Longrightarrow>
   v \<noteq> JNull \<Longrightarrow> \<not> (\<exists>t. v = JString t) \<Longrightarrow>
   jsonReplacement builtinMember msg key = stringify v"
  by (cases v) (auto simp: jsonReplacement_def fieldOf_def)

text \<open>
  Claim C4 says that \<open>interpolateTemplate\<close> puts the empty string in the place of
  \<open>$json.<field>\<close> when the decoded body has no such field. The code does not: the
  replacement function returns \<open>JSON.stringify(value ?? "")\<close>, and the JSON text of the
  empty string is the two characters \<open>""\<close>. For the template \<open>Hello, $json.name!\<close> and
  a message whose body is \<open>{"value":5}\<close> the result is \<open>Hello, ""!\<close>, where the claim
  asks for \<open>Hello, !\<close>. (The hypothesis says that \<open>name\<close> is no built-in member of the
  decoded object either, as is the case in JavaScript.)
\<close>

theorem absent_field_renders_quotes:
  "builtinMember (JObject [(''value'', JNumber ''5'')]) ''name'' = None \<Longrightarrow>
   interpolateTemplate builtinMember ''Hello, $json.name!'' valueMessage
     = ''Hello, '' @ [CHR 0x22, CHR 0x22] @ ''!''"
  by (simp only: interpolateTemplate_def Let_def greet_first_passes greet_json_pass greet_absent)

theorem absent_field_renders_quotes_witness:
  "(\<lambda>d k. None) (JObject [(''value'', JNumber ''5'')]) ''name'' = (None :: string option)
   \<and> interpolateTemplate (\<lambda>d k. None) ''Hello, $json.name!'' valueMessage
       = ''Hello, '' @ [CHR 0x22, CHR 0x22] @ ''!''"
  using absent_field_renders_quotes [of "\<lambda>d k. None"] by simp

section \<open>Properties of the session manager\<close>

subsection \<open>The example sessions are reached from the empty session\<close>

lemma activeSession_reached:
  "snd (startReplyHandler steadyWorld ''nats://demo'' ''lab.greet'' (Some ''Hello'') None 0
          ''reply-key'' None
          (snd (startSubscription steadyWorld ''nats://demo'' ''lab.metrics'' 0 ''sub-key''
                  emptySession)))
     = activeSession"
  by code_simp

lemma activeSession_reached_flaky:
  "snd (startReplyHandler flakyWorld ''nats://demo'' ''lab.greet'' (Some ''Hello'') None 0
          ''reply-key'' None
          (snd (startSubscription flakyWorld ''nats://demo'' ''lab.metrics'' 0 ''sub-key''
                  emptySession)))
     = activeSession"
  by code_simp


subsection \<open>Starting twice, stopping what is not registered\<close>

lemma started_isSubscribed:
  "startSubscription w serverUrl subject sink key s = (Inr u, s') \<Longrightarrow> isSubscribed s' key"
  by (auto simp: isSubscribed_def startSubscription_def Let_def update_conv'
    split: if_splits prod.splits sum.splits)

text \<open>
  Claim C7. For every key that already has an active subscription context, a call of
  \<open>startSubscription\<close> with that key returns normally and leaves the session as it was:
  the context map (no duplicate context), the trace (no connector call, no new broker
  subscription) and the counter maps are the same.
\<close>

theorem start_subscription_idempotent:
  "isSubscribed s key \<Longrightarrow> startSubscription w serverUrl subject sink key s = (Inr (), s)"
  by (simp add: isSubscribed_def startSubscription_def)

theorem start_subscription_idempotent_witness:
  "isSubscribed activeSession ''sub-key''
   \<and> startSubscription steadyWorld ''nats://other'' ''lab.other'' 5 ''sub-key'' activeSession
       = (Inr (), activeSession)"
proof -
  have active: "isSubscribed activeSession ''sub-key''"
    by (simp add: isSubscribed_def activeSession_def)
  show ?thesis
    using active start_subscription_idempotent [OF active] by simp
qed

text \<open>
  Claim C10. For every key that has no registered context, \<open>stopSubscription\<close> and
  \<open>stopReplyHandler\<close> leave the whole session as it was: the context maps, both counter
  maps, the connection table and the trace (no \<open>unsubscribe\<close> is issued).
\<close>

theorem stop_unregistered_is_noop:
  "(\<not> isSubscribed s key \<longrightarrow> stopSubscription key s = s) \<and>
   (\<not> isReplyHandlerActive s key \<longrightarrow> stopReplyHandler key s = s)"
  by (simp add: isSubscribed_def isReplyHandlerActive_def stopSubscription_def
      stopReplyHandler_def stopContext_def)

theorem stop_unregistered_is_noop_witness:
  "\<not> isSubscribed activeSession ''reply-key''
   \<and> stopSubscription ''reply-key'' activeSession = activeSession
   \<and> \<not> isReplyHandlerActive activeSession ''sub-key''
   \<and> stopReplyHandler ''sub-key'' activeSession = activeSession"
proof -
  have sub: "\<not> isSubscribed activeSession ''reply-key''"
    by (simp add: isSubscribed_def activeSession_def)
  have rep: "\<not> isReplyHandlerActive activeSession ''sub-key''"
    by (simp add: isReplyHandlerActive_def activeSession_def)
  show ?thesis
    using sub rep stop_unregistered_is_noop [of activeSession "''reply-key''"]
      stop_unregistered_is_noop [of activeSession "''sub-key''"]
    by simp
qed

subsection \<open>Reconnection with a failing connector\<close>

text \<open>
  Claim C2 says that when the connector fails inside \<open>reconnectConnection\<close> the contexts
  of the identity have already been torn down. The code calls the connector before the
  teardown loops: in the session with one subscription and one reply handler on
  \<open>nats://demo\<close>, a reconnection whose connector call fails raises that failure, and
  both contexts are still registered.
\<close>

theorem reconnect_failure_keeps_contexts:
  "fst (reconnectConnection flakyWorld ''nats://demo'' activeSession)
     = Inl (Error ''connect failed'')
   \<and> isSubscribed (snd (reconnectConnection flakyWorld ''nats://demo'' activeSession)) ''sub-key''
   \<and> isReplyHandlerActive (snd (reconnectConnection flakyWorld ''nats://demo'' activeSession))
        ''reply-key''"
  by code_simp

text \<open>
  Claim C2, amended. For every session state in which \<open>reconnectConnection\<close> is invoked
  on an existing identity and the connector call fails, the failure is surfaced to the
  caller and nothing has been torn down: the context maps, both counter maps and the
  connection table are as before the call; only the connector call is added to the trace.
\<close>

theorem reconnect_connector_failure_surfaced:
  "map_of (connections s) serverKey = Some existing \<Longrightarrow>
   buildConnectOptions w (mc_rawUrl existing) = Inr options \<Longrightarrow>
   w_connector w (events s) options = Inl e \<Longrightarrow>
   reconnectConnection w serverKey s = (Inl e, s\<lparr>events := events s @ [ConnectCall options]\<rparr>)"
  by (simp add: reconnectConnection_def Let_def record_event_def)

theorem reconnect_connector_failure_surfaced_witness:
  "map_of (connections activeSession) ''nats://demo'' = Some demoManaged
   \<and> buildConnectOptions flakyWorld (mc_rawUrl demoManaged) = Inr demoOptions
   \<and> w_connector flakyWorld (events activeSession) demoOptions = Inl (Error ''connect failed'')
   \<and> reconnectConnection flakyWorld ''nats://demo'' activeSession
       = (Inl (Error ''connect failed''),
          activeSession\<lparr>events := events activeSession @ [ConnectCall demoOptions]\<rparr>)"
proof -
  have entry: "map_of (connections activeSession) ''nats://demo'' = Some demoManaged"
    by (simp add: activeSession_def)
  have options: "buildConnectOptions flakyWorld (mc_rawUrl demoManaged) = Inr demoOptions"
    by code_simp
  have fails: "w_connector flakyWorld (events activeSession) demoOptions
      = Inl (Error ''connect failed'')"
    by code_simp
  show ?thesis
    using entry options fails reconnect_connector_failure_surfaced [OF entry options fails]
    by simp
qed

subsection \<open>JetStream pull\<close>












subsection \<open>Reconnection: the order of the calls\<close>

lemma stopSubscription_frame [simp]:
  "connections (stopSubscription key s) = connections s"
  "replies (stopSubscription key s) = replies s"
  "replyCounts (stopSubscription key s) = replyCounts s"
  by (simp_all add: stopSubscription_def stopContext_def split: option.splits)

lemma stopReplyHandler_frame [simp]:
  "connections (stopReplyHandler key s) = connections s"
  "subscriptions (stopReplyHandler key s) = subscriptions s"
  "subscriptionCounts (stopReplyHandler key s) = subscriptionCounts s"
  by (simp_all add: stopReplyHandler_def stopContext_def split: option.splits)

lemma stopSubscriptions_frame [simp]:
  "connections (stopSubscriptions xs s) = connections s"
  "replies (stopSubscriptions xs s) = replies s"
  "replyCounts (stopSubscriptions xs s) = replyCounts s"
  by (induction xs s rule: stopSubscriptions.induct) simp_all

lemma stopReplyHandlers_frame [simp]:
  "connections (stopReplyHandlers xs s) = connections s"
  "subscriptions (stopReplyHandlers xs s) = subscriptions s"
  "subscriptionCounts (stopReplyHandlers xs s) = subscriptionCounts s"
  by (induction xs s rule: stopReplyHandlers.induct) simp_all
















subsection \<open>Reference counts\<close>

text \<open>\<open>collectCount\<close> is the sum of the counters whose key ends with \<open>|subject\<close>.\<close>

lemma collectCount_foldl:
  "foldl (\<lambda>total (key, v). if endsWith key (''|'' @ subject) then total + v else total) a store
     = a + suffixTotal subject store"
  by (induction store arbitrary: a) (auto simp: suffixTotal_def)

lemma collectCount_total: "collectCount store subject = suffixTotal subject store"
  unfolding collectCount_def collectCount_foldl by simp

lemma suffixTotal_delete:
  "distinct (map fst store) \<Longrightarrow> map_of store k = Some v \<Longrightarrow>
   suffixTotal subject (AList.delete k store)
     = suffixTotal subject store - (if endsWith k (''|'' @ subject) then v else 0)"
proof (induction store)
  case Nil
  then show ?case by simp
next
  case (Cons p store)
  obtain k' v' where p: "p = (k', v')" by (cases p)
  show ?case
  proof (cases "k' = k")
    case True
    then have "k \<notin> fst ` set store" using Cons.prems p by auto
    then show ?thesis using True p Cons.prems by (simp add: suffixTotal_def)
  next
    case False
    then show ?thesis using p Cons by (simp add: suffixTotal_def)
  qed
qed

lemma suffixTotal_update:
  "distinct (map fst store) \<Longrightarrow> map_of store k = Some v \<Longrightarrow>
   suffixTotal subject (AList.update k v' store)
     = suffixTotal subject store - (if endsWith k (''|'' @ subject) then v else 0)
        + (if endsWith k (''|'' @ subject) then v' else 0)"
proof (induction store)
  case Nil
  then show ?case by simp
next
  case (Cons p store)
  obtain k'' v'' where p: "p = (k'', v'')" by (cases p)
  show ?case
  proof (cases "k'' = k")
    case True
    then show ?thesis using p Cons.prems by (simp add: suffixTotal_def)
  next
    case False
    then show ?thesis using p Cons by (simp add: suffixTotal_def)
  qed
qed

lemma endsWith_subjectKey: "endsWith (subjectKey server subject) (''|'' @ subject)"
  by (simp add: endsWith_def subjectKey_def)

lemma contextsOf_delete:
  "distinct (map fst store) \<Longrightarrow> map_of store key = Some c \<Longrightarrow>
   contextsOf store k = contextsOf (AList.delete key store) k + (if pairKey c = k then 1 else 0)"
proof (induction store)
  case Nil
  then show ?case by simp
next
  case (Cons p store)
  obtain key' c' where p: "p = (key', c')" by (cases p)
  show ?case
  proof (cases "key' = key")
    case True
    then have "key \<notin> fst ` set store" using Cons.prems p by auto
    then show ?thesis using True p Cons.prems by (simp add: contextsOf_def)
  next
    case False
    then show ?thesis using p Cons by (simp add: contextsOf_def)
  qed
qed

lemma contextsOf_update:
  "map_of store key = None \<Longrightarrow>
   contextsOf (AList.update key c store) k = contextsOf store k + (if pairKey c = k then 1 else 0)"
  by (induction store) (auto simp: contextsOf_def)


lemma decrementCount_countOf:
  "countOf (decrementCount counts server subject) (subjectKey server subject)
     = max 0 (countOf counts (subjectKey server subject) - 1)"
  by (auto simp: decrementCount_def Let_def countOf_def update_conv' delete_conv')





lemma countsAgree_countOf:
  "countsAgree store counts \<Longrightarrow> countOf counts k = int (contextsOf store k)"
  by (simp add: countsAgree_def countOf_def)

lemma contextsOf_registered:
  "map_of store key = Some c \<Longrightarrow> 1 \<le> contextsOf store (pairKey c)"
  by (induction store) (auto simp: contextsOf_def split: if_splits)




subsection \<open>Counters when the operations run one at a time\<close>

text \<open>What \<open>stopContext\<close> does to the counters of a registered key, under the
  invariant.\<close>

lemma stopContext_counts:
  assumes agree: "countsAgree store counts"
    and reg: "map_of store key = Some c"
    and stop: "stopContext store key counts evs = (store', counts', evs')"
  shows "countOf counts' (pairKey c) = countOf counts (pairKey c) - 1"
    and "contextsOf store (pairKey c) = 1 \<Longrightarrow> map_of counts' (pairKey c) = None"
    and "collectCount counts' (ctx_subject c) = collectCount counts (ctx_subject c) - 1"
    and "countsAgree store' counts'"
proof -
  let ?k = "pairKey c"
  let ?n = "contextsOf store ?k"
  have ds: "distinct (map fst store)" and dc: "distinct (map fst counts)"
    and m: "\<And>k. map_of counts k = (if contextsOf store k = 0 then None else Some (int (contextsOf store k)))"
    using agree by (auto simp: countsAgree_def)
  have store': "store' = AList.delete key store"
    and counts': "counts' = decrementCount counts (ctx_server c) (ctx_subject c)"
    using stop reg by (simp_all add: stopContext_def)
  have n: "?n = contextsOf store' ?k + 1"
    using contextsOf_delete [OF ds reg, of ?k] store' by simp
  then have pos: "0 < ?n" by simp
  have cur: "map_of counts ?k = Some (int ?n)" using m [of ?k] pos by simp
  have cnt: "countOf counts ?k = int ?n" using cur by (simp add: countOf_def)
  have key: "subjectKey (ctx_server c) (ctx_subject c) = ?k" by (simp add: pairKey_def)
  show c1: "countOf counts' ?k = countOf counts ?k - 1"
    using cnt cur pos unfolding counts' decrementCount_def Let_def key
    by (auto simp: countOf_def update_conv' delete_conv')
  show "contextsOf store ?k = 1 \<Longrightarrow> map_of counts' ?k = None"
    using cnt unfolding counts' decrementCount_def Let_def key
    by (simp add: delete_conv')
  show "collectCount counts' (ctx_subject c) = collectCount counts (ctx_subject c) - 1"
    using cnt pos suffixTotal_delete [OF dc cur, of "ctx_subject c"]
      suffixTotal_update [OF dc cur, of "ctx_subject c" "int ?n - 1"]
      endsWith_subjectKey [of "ctx_server c" "ctx_subject c"]
    unfolding counts' decrementCount_def Let_def key collectCount_total
    by (auto simp: pairKey_def)
  have "\<And>k. map_of counts' k =
      (if contextsOf store' k = 0 then None else Some (int (contextsOf store' k)))"
  proof -
    fix k
    have ck: "contextsOf store k = contextsOf store' k + (if ?k = k then 1 else 0)"
      using contextsOf_delete [OF ds reg, of k] store' by simp
    show "map_of counts' k =
      (if contextsOf store' k = 0 then None else Some (int (contextsOf store' k)))"
    proof (cases "k = ?k")
      case True
      then show ?thesis
        using cnt cur n m [of k] unfolding counts' decrementCount_def Let_def key
        by (auto simp: update_conv' delete_conv')
    next
      case False
      then show ?thesis
        using ck m [of k] unfolding counts' decrementCount_def Let_def key
        by (auto simp: update_conv' delete_conv')
    qed
  qed
  then show "countsAgree store' counts'"
    using ds dc unfolding countsAgree_def store' counts' decrementCount_def Let_def
    by (auto simp: distinct_delete distinct_update)
qed

text \<open>The invariant holds in the empty session and every operation of the session, run
  from its call to its return, keeps it.\<close>

lemma stopContext_agree:
  "countsAgree store counts \<Longrightarrow> stopContext store key counts evs = (store', counts', evs')
     \<Longrightarrow> countsAgree store' counts'"
proof (cases "map_of store key")
  case None
  assume "countsAgree store counts" "stopContext store key counts evs = (store', counts', evs')"
  then show ?thesis using None by (simp add: stopContext_def)
next
  case (Some c)
  assume "countsAgree store counts" "stopContext store key counts evs = (store', counts', evs')"
  then show ?thesis using stopContext_counts(4) [OF _ Some] by blast
qed

lemma register_agree:
  assumes agree: "countsAgree store counts" and fresh: "map_of store key = None"
  shows "countsAgree (AList.update key c store)
           (incrementCount counts (ctx_server c) (ctx_subject c))"
proof -
  have ds: "distinct (map fst store)" and dc: "distinct (map fst counts)"
    and m: "\<And>k. map_of counts k = (if contextsOf store k = 0 then None else Some (int (contextsOf store k)))"
    using agree by (auto simp: countsAgree_def)
  have key: "subjectKey (ctx_server c) (ctx_subject c) = pairKey c" by (simp add: pairKey_def)
  have "\<And>k. map_of (incrementCount counts (ctx_server c) (ctx_subject c)) k =
      (if contextsOf (AList.update key c store) k = 0 then None
       else Some (int (contextsOf (AList.update key c store) k)))"
    using m unfolding incrementCount_def Let_def key contextsOf_update [OF fresh]
    by (auto simp: update_conv' countOf_def)
  then show ?thesis
    using ds dc unfolding countsAgree_def incrementCount_def Let_def
    by (auto simp: distinct_update)
qed

lemma sessionInvariant_empty: "sessionInvariant emptySession"
  by (simp add: sessionInvariant_def emptySession_def countsAgree_def contextsOf_def)

lemma getConnection_contexts:
  "getConnection w rawUrl s = (r, s') \<Longrightarrow>
   subscriptions s' = subscriptions s \<and> replies s' = replies s
   \<and> subscriptionCounts s' = subscriptionCounts s \<and> replyCounts s' = replyCounts s"
  by (auto simp: getConnection_def Let_def record_event_def split: sum.splits option.splits)

lemma startSubscription_invariant:
  assumes inv: "sessionInvariant s"
    and start: "startSubscription w serverUrl subject sink key s = (r, s')"
  shows "sessionInvariant s'"
proof (cases "map_of (subscriptions s) key")
  case (Some c)
  then show ?thesis using inv start by (simp add: startSubscription_def)
next
  case None
  obtain g s1 where g: "getConnection w serverUrl s = (g, s1)"
    by (cases "getConnection w serverUrl s")
  note same = getConnection_contexts [OF g]
  show ?thesis
  proof (cases g)
    case (Inl e)
    then show ?thesis using inv start None g same
      by (simp add: startSubscription_def sessionInvariant_def)
  next
    case (Inr connection)
    have fresh: "map_of (subscriptions s1) key = None" using None same by simp
    have agree: "countsAgree (subscriptions s1) (subscriptionCounts s1)"
      using inv same by (simp add: sessionInvariant_def)
    show ?thesis
      using inv start None g Inr same
        register_agree [OF agree fresh,
          of "\<lparr>ctx_subject = subject, ctx_server = mc_serverKey connection,
               ctx_subscription = w_subscribe w (events s1) (mc_connection connection) subject,
               ctx_sink = sink, ctx_template = None, ctx_payload = None,
               ctx_headers = None\<rparr>"]
      by (auto simp: startSubscription_def sessionInvariant_def Let_def record_event_def)
  qed
qed

lemma startReplyHandler_invariant:
  assumes inv: "sessionInvariant s"
    and start: "startReplyHandler w serverUrl subject template payload sink key hdrs s = (r, s')"
  shows "sessionInvariant s'"
proof (cases "map_of (replies s) key")
  case (Some c)
  then show ?thesis using inv start by (simp add: startReplyHandler_def)
next
  case None
  obtain g s1 where g: "getConnection w serverUrl s = (g, s1)"
    by (cases "getConnection w serverUrl s")
  note same = getConnection_contexts [OF g]
  show ?thesis
  proof (cases g)
    case (Inl e)
    then show ?thesis using inv start None g same
      by (simp add: startReplyHandler_def sessionInvariant_def)
  next
    case (Inr connection)
    have fresh: "map_of (replies s1) key = None" using None same by simp
    have agree: "countsAgree (replies s1) (replyCounts s1)"
      using inv same by (simp add: sessionInvariant_def)
    show ?thesis
      using inv start None g Inr same
        register_agree [OF agree fresh,
          of "\<lparr>ctx_subject = subject, ctx_server = mc_serverKey connection,
               ctx_subscription = w_subscribe w (events s1) (mc_connection connection) subject,
               ctx_sink = sink, ctx_template = template, ctx_payload = payload,
               ctx_headers = hdrs\<rparr>"]
      by (auto simp: startReplyHandler_def sessionInvariant_def Let_def record_event_def)
  qed
qed

lemma stopSubscription_invariant: "sessionInvariant s \<Longrightarrow> sessionInvariant (stopSubscription key s)"
proof -
  assume inv: "sessionInvariant s"
  obtain store counts evs where
    st: "stopContext (subscriptions s) key (subscriptionCounts s) (events s) = (store, counts, evs)"
    by (cases "stopContext (subscriptions s) key (subscriptionCounts s) (events s)")
  have "countsAgree store counts"
    using stopContext_agree [OF _ st] inv by (simp add: sessionInvariant_def)
  then show ?thesis using inv st by (simp add: stopSubscription_def sessionInvariant_def)
qed

lemma stopReplyHandler_invariant: "sessionInvariant s \<Longrightarrow> sessionInvariant (stopReplyHandler key s)"
proof -
  assume inv: "sessionInvariant s"
  obtain store counts evs where
    st: "stopContext (replies s) key (replyCounts s) (events s) = (store, counts, evs)"
    by (cases "stopContext (replies s) key (replyCounts s) (events s)")
  have "countsAgree store counts"
    using stopContext_agree [OF _ st] inv by (simp add: sessionInvariant_def)
  then show ?thesis using inv st by (simp add: stopReplyHandler_def sessionInvariant_def)
qed

lemma sessionInvariant_record_event [simp]:
  "sessionInvariant (record_event e s) = sessionInvariant s"
  by (simp add: sessionInvariant_def record_event_def)

lemma sessionInvariant_connections [simp]:
  "sessionInvariant (s\<lparr>connections := table\<rparr>) = sessionInvariant s"
  by (simp add: sessionInvariant_def)

lemma stopSubscriptions_invariant:
  "sessionInvariant s \<Longrightarrow> sessionInvariant (stopSubscriptions xs s)"
  by (induction xs s rule: stopSubscriptions.induct) (simp_all add: stopSubscription_invariant)

lemma stopReplyHandlers_invariant:
  "sessionInvariant s \<Longrightarrow> sessionInvariant (stopReplyHandlers xs s)"
  by (induction xs s rule: stopReplyHandlers.induct) (simp_all add: stopReplyHandler_invariant)

lemma restartSubscriptions_invariant:
  "sessionInvariant s \<Longrightarrow> restartSubscriptions w rawUrl xs s = (r, s') \<Longrightarrow> sessionInvariant s'"
proof (induction xs arbitrary: s)
  case Nil
  then show ?case by simp
next
  case (Cons x xs)
  obtain k c where x: "x = (k, c)" by (cases x)
  obtain r1 s1 where st: "startSubscription w rawUrl (ctx_subject c) (ctx_sink c) k s = (r1, s1)"
    by (cases "startSubscription w rawUrl (ctx_subject c) (ctx_sink c) k s")
  have inv1: "sessionInvariant s1" using startSubscription_invariant [OF Cons.prems(1) st] .
  show ?case
  proof (cases r1)
    case (Inl e)
    then show ?thesis using Cons.prems(2) x st inv1 by simp
  next
    case (Inr u)
    then show ?thesis using Cons.prems(2) x st Cons.IH [OF inv1] by simp
  qed
qed

lemma restartReplyHandlers_invariant:
  "sessionInvariant s \<Longrightarrow> restartReplyHandlers w rawUrl xs s = (r, s') \<Longrightarrow> sessionInvariant s'"
proof (induction xs arbitrary: s)
  case Nil
  then show ?case by simp
next
  case (Cons x xs)
  obtain k c where x: "x = (k, c)" by (cases x)
  obtain r1 s1 where st: "startReplyHandler w rawUrl (ctx_subject c) (ctx_template c)
      (ctx_payload c) (ctx_sink c) k (ctx_headers c) s = (r1, s1)"
    by (cases "startReplyHandler w rawUrl (ctx_subject c) (ctx_template c)
      (ctx_payload c) (ctx_sink c) k (ctx_headers c) s")
  have inv1: "sessionInvariant s1" using startReplyHandler_invariant [OF Cons.prems(1) st] .
  show ?case
  proof (cases r1)
    case (Inl e)
    then show ?thesis using Cons.prems(2) x st inv1 by simp
  next
    case (Inr u)
    then show ?thesis using Cons.prems(2) x st Cons.IH [OF inv1] by simp
  qed
qed

lemma reconnectConnection_invariant:
  assumes inv: "sessionInvariant s"
    and run: "reconnectConnection w serverKey s = (r, s')"
  shows "sessionInvariant s'"
proof (cases "map_of (connections s) serverKey")
  case None
  then show ?thesis using inv run by (simp add: reconnectConnection_def)
next
  case (Some existing)
  note entry = Some
  show ?thesis
  proof (cases "buildConnectOptions w (mc_rawUrl existing)")
    case (Inl e)
    then show ?thesis using inv run entry by (simp add: reconnectConnection_def Let_def)
  next
    case (Inr options)
    note opts = Inr
    show ?thesis
    proof (cases "w_connector w (events s) options")
      case (Inl e)
      then show ?thesis using inv run entry opts by (auto simp: reconnectConnection_def Let_def)
    next
      case (Inr newConnection)
      let ?subs = "boundTo serverKey (subscriptions s)"
      let ?reps = "boundTo serverKey (replies s)"
      let ?s3 = "stopReplyHandlers ?reps
          (stopSubscriptions ?subs (record_event (ConnectCall options) s))"
      let ?s4 = "record_event (CloseCall (nc_id (mc_connection existing))) ?s3"
      let ?managed = "\<lparr>mc_serverKey = serverKey, mc_rawUrl = mc_rawUrl existing,
          mc_connection = newConnection, mc_markedClosed = False\<rparr>"
      let ?s5 = "?s4\<lparr>connections := AList.update serverKey ?managed (connections ?s4)\<rparr>"
      have inv3: "sessionInvariant ?s3"
        using inv by (simp add: stopReplyHandlers_invariant stopSubscriptions_invariant)
      then have inv5: "sessionInvariant ?s5" by simp
      have unfolded: "reconnectConnection w serverKey s =
          (case w_close w (events ?s3) (mc_connection existing) of
             Some e \<Rightarrow> (Inl e, ?s4)
           | None \<Rightarrow>
               (case restartSubscriptions w (mc_rawUrl existing) ?subs ?s5 of
                  (Inl e, s6) \<Rightarrow> (Inl e, s6)
                | (Inr u, s6) \<Rightarrow>
                    (case restartReplyHandlers w (mc_rawUrl existing) ?reps s6 of
                       (Inl e, s7) \<Rightarrow> (Inl e, s7)
                     | (Inr u', s7) \<Rightarrow> (Inr (int (length ?subs) + int (length ?reps)), s7))))"
        using entry opts Inr unfolding reconnectConnection_def Let_def by simp
      show ?thesis
      proof (cases "w_close w (events ?s3) (mc_connection existing)")
        case (Some e)
        then show ?thesis using run unfolded inv3 by auto
      next
        case None
        obtain r6 s6 where r6: "restartSubscriptions w (mc_rawUrl existing) ?subs ?s5 = (r6, s6)"
          by (cases "restartSubscriptions w (mc_rawUrl existing) ?subs ?s5")
        have inv6: "sessionInvariant s6" using restartSubscriptions_invariant [OF inv5 r6] .
        obtain r7 s7 where r7: "restartReplyHandlers w (mc_rawUrl existing) ?reps s6 = (r7, s7)"
          by (cases "restartReplyHandlers w (mc_rawUrl existing) ?reps s6")
        have inv7: "sessionInvariant s7" using restartReplyHandlers_invariant [OF inv6 r7] .
        show ?thesis
          using run unfolded None r6 r7 inv6 inv7
          by (cases r6; cases r7) auto
      qed
    qed
  qed
qed

lemma closeAll_contexts:
  "subscriptions (closeAll w table s) = subscriptions s \<and> replies (closeAll w table s) = replies s
   \<and> subscriptionCounts (closeAll w table s) = subscriptionCounts s
   \<and> replyCounts (closeAll w table s) = replyCounts s"
  by (induction w table s rule: closeAll.induct) (simp_all add: record_event_def)

lemma reset_invariant: "sessionInvariant s \<Longrightarrow> sessionInvariant (reset w s)"
proof -
  assume inv: "sessionInvariant s"
  let ?s1 = "stopSubscriptions (subscriptions s) s"
  let ?s2 = "stopReplyHandlers (replies ?s1) ?s1"
  have "sessionInvariant ?s2"
    using inv by (simp add: stopReplyHandlers_invariant stopSubscriptions_invariant)
  then have "sessionInvariant (closeAll w (connections ?s2) ?s2)"
    using closeAll_contexts [of w "connections ?s2" ?s2] by (simp add: sessionInvariant_def)
  then show ?thesis by (simp add: reset_def Let_def)
qed

lemma markConnectionClosed_invariant [simp]:
  "sessionInvariant (markConnectionClosed serverKey s) = sessionInvariant s"
  by (simp add: markConnectionClosed_def split: option.splits)

lemma markConnectionClosed_maps [simp]:
  "subscriptions (markConnectionClosed k s) = subscriptions s"
  "replies (markConnectionClosed k s) = replies s"
  "subscriptionCounts (markConnectionClosed k s) = subscriptionCounts s"
  "replyCounts (markConnectionClosed k s) = replyCounts s"
  by (simp_all add: markConnectionClosed_def split: option.splits)

lemma appendLogBlock_state:
  "appendLogBlock w sink block sep s = (r, s') \<Longrightarrow> s' = record_event (AppendLog sink block sep) s"
  by (auto simp: appendLogBlock_def split: option.splits)

lemma pullNotice_state:
  "pullNotice w prefix stream durable sink title body s = (r, s') \<Longrightarrow>
   connections s' = connections s \<and> subscriptions s' = subscriptions s \<and> replies s' = replies s
   \<and> subscriptionCounts s' = subscriptionCounts s \<and> replyCounts s' = replyCounts s"
  by (auto simp: pullNotice_def record_event_def split: sum.splits dest!: appendLogBlock_state)

lemma pullLoop_maps:
  "pullLoop w connection prefix stream durable sink msgs s = (r, s') \<Longrightarrow>
   subscriptions s' = subscriptions s \<and> replies s' = replies s
   \<and> subscriptionCounts s' = subscriptionCounts s \<and> replyCounts s' = replyCounts s"
proof (induction msgs arbitrary: s r s')
  case Nil
  then show ?case by simp
next
  case (Cons msg msgs)
  show ?case
    using Cons.prems
    by (auto simp: Let_def record_event_def split: sum.splits option.splits prod.splits if_splits
        dest!: appendLogBlock_state Cons.IH)
qed

lemma pullAttempt_maps:
  "pullAttempt w connection js prefix stream durable batchSize expires sink s = (r, s') \<Longrightarrow>
   subscriptions s' = subscriptions s \<and> replies s' = replies s
   \<and> subscriptionCounts s' = subscriptionCounts s \<and> replyCounts s' = replyCounts s"
  by (auto simp: pullAttempt_def Let_def record_event_def
      split: sum.splits option.splits prod.splits if_splits
      dest!: pullLoop_maps pullNotice_state)

lemma pullJetStream_maps:
  "pullJetStream w serverUrl stream durable options sink s = (r, s') \<Longrightarrow>
   subscriptions s' = subscriptions s \<and> replies s' = replies s
   \<and> subscriptionCounts s' = subscriptionCounts s \<and> replyCounts s' = replyCounts s"
  by (auto simp: pullJetStream_def Let_def record_event_def
      split: sum.splits option.splits prod.splits if_splits
      dest!: pullAttempt_maps pullNotice_state getConnection_contexts)

lemma pullJetStream_invariant:
  "sessionInvariant s \<Longrightarrow> pullJetStream w serverUrl stream durable options sink s = (r, s')
     \<Longrightarrow> sessionInvariant s'"
  using pullJetStream_maps [of w serverUrl stream durable options sink s r s']
  by (simp add: sessionInvariant_def)

lemma activeSession_invariant: "sessionInvariant activeSession"
proof -
  obtain r1 s1 where s1: "startSubscription steadyWorld ''nats://demo'' ''lab.metrics'' 0
      ''sub-key'' emptySession = (r1, s1)"
    by (cases "startSubscription steadyWorld ''nats://demo'' ''lab.metrics'' 0
      ''sub-key'' emptySession")
  obtain r2 s2 where s2: "startReplyHandler steadyWorld ''nats://demo'' ''lab.greet''
      (Some ''Hello'') None 0 ''reply-key'' None s1 = (r2, s2)"
    by (cases "startReplyHandler steadyWorld ''nats://demo'' ''lab.greet''
      (Some ''Hello'') None 0 ''reply-key'' None s1")
  have "sessionInvariant s2"
    using startReplyHandler_invariant [OF startSubscription_invariant
      [OF sessionInvariant_empty s1] s2] .
  moreover have "s2 = activeSession" using activeSession_reached s1 s2 by simp
  ultimately show ?thesis by simp
qed



text \<open>
  The second half of claim C8 fails in one more way. \<open>startSubscription\<close> tests its key
  before it waits for the connection and registers after: two overlapping calls with one
  key both pass the test, the second registration replaces the context of the first, and
  the counter of the pair is 2 for one context. Stopping that context, the last of its
  pair, leaves the entry of the pair in the counter map, with 1.
\<close>

lemma startSubscription_segments:
  "startSubscription w serverUrl subject sink key s =
     (if isSubscribed s key then (Inr (), s)
      else (case getConnection w serverUrl s of
              (Inl e, s1) \<Rightarrow> (Inl e, s1)
            | (Inr connection, s1) \<Rightarrow>
                (Inr (), registerSubscription w subject sink key connection s1)))"
  by (simp add: startSubscription_def registerSubscription_def isSubscribed_def Let_def
      split: prod.splits sum.splits)

lemma startReplyHandler_segments:
  "startReplyHandler w serverUrl subject template payload sink key replyHeaders s =
     (if isReplyHandlerActive s key then (Inr (), s)
      else (case getConnection w serverUrl s of
              (Inl e, s1) \<Rightarrow> (Inl e, s1)
            | (Inr connection, s1) \<Rightarrow>
                (Inr (), registerReplyHandler w subject template payload sink key replyHeaders
                           connection s1)))"
  by (simp add: startReplyHandler_def registerReplyHandler_def isReplyHandlerActive_def Let_def
      split: prod.splits sum.splits)

lemma overlapping_starts_count_twice:
  "\<not> isSubscribed connectedSession ''sub-key''
   \<and> getConnection steadyWorld ''nats://demo'' connectedSession = (Inr demoManaged, connectedSession)
   \<and> map fst (subscriptions overlappedSession) = [''sub-key'']
   \<and> contextsOf (subscriptions overlappedSession) ''nats://demo|lab.metrics'' = 1
   \<and> countOf (subscriptionCounts overlappedSession) ''nats://demo|lab.metrics'' = 2
   \<and> subscriptions (stopSubscription ''sub-key'' overlappedSession) = []
   \<and> map_of (subscriptionCounts (stopSubscription ''sub-key'' overlappedSession))
        ''nats://demo|lab.metrics'' = Some 1
   \<and> getSubscriptionCount (stopSubscription ''sub-key'' overlappedSession) ''lab.metrics'' = 1"
  by code_simp




subsection \<open>Sessions whose operations run one at a time\<close>

lemma list_all_update:
  "list_all P table \<Longrightarrow> P (k, v) \<Longrightarrow> list_all P (AList.update k v table)"
  by (induction table) auto

lemma tableInvariant_lookup:
  "tableInvariant w s \<Longrightarrow> map_of (connections s) k = Some m \<Longrightarrow>
   mc_serverKey m = k \<and> normalizeServerUrl w (mc_rawUrl m) = Inr k"
  by (auto simp: tableInvariant_def list_all_iff dest: map_of_SomeD)

lemma tableInvariant_events [simp]:
  "tableInvariant w (record_event e s) = tableInvariant w s"
  by (simp add: tableInvariant_def record_event_def)

lemma tableInvariant_frame:
  "connections s' = connections s \<Longrightarrow> tableInvariant w s' = tableInvariant w s"
  by (simp add: tableInvariant_def)

lemma getConnection_table:
  "tableInvariant w s \<Longrightarrow> getConnection w rawUrl s = (r, s') \<Longrightarrow> tableInvariant w s'"
  by (auto simp: getConnection_def Let_def tableInvariant_def record_event_def
      intro!: list_all_update split: sum.splits option.splits)

lemma startSubscription_table:
  "tableInvariant w s \<Longrightarrow> startSubscription w serverUrl subject sink key s = (r, s')
     \<Longrightarrow> tableInvariant w s'"
proof -
  assume inv: "tableInvariant w s"
    and run: "startSubscription w serverUrl subject sink key s = (r, s')"
  obtain g s1 where g: "getConnection w serverUrl s = (g, s1)"
    by (cases "getConnection w serverUrl s")
  have "tableInvariant w s1" using getConnection_table [OF inv g] .
  then show ?thesis
    using inv run g
    by (auto simp: startSubscription_def Let_def tableInvariant_def record_event_def
        split: if_splits sum.splits)
qed

lemma startReplyHandler_table:
  "tableInvariant w s \<Longrightarrow>
   startReplyHandler w serverUrl subject template payload sink key hdrs s = (r, s')
     \<Longrightarrow> tableInvariant w s'"
proof -
  assume inv: "tableInvariant w s"
    and run: "startReplyHandler w serverUrl subject template payload sink key hdrs s = (r, s')"
  obtain g s1 where g: "getConnection w serverUrl s = (g, s1)"
    by (cases "getConnection w serverUrl s")
  have "tableInvariant w s1" using getConnection_table [OF inv g] .
  then show ?thesis
    using inv run g
    by (auto simp: startReplyHandler_def Let_def tableInvariant_def record_event_def
        split: if_splits sum.splits)
qed


lemma restartSubscriptions_table:
  "tableInvariant w s \<Longrightarrow> restartSubscriptions w rawUrl xs s = (r, s') \<Longrightarrow> tableInvariant w s'"
proof (induction xs arbitrary: s)
  case Nil
  then show ?case by simp
next
  case (Cons x xs)
  obtain k c where x: "x = (k, c)" by (cases x)
  obtain r1 s1 where st: "startSubscription w rawUrl (ctx_subject c) (ctx_sink c) k s = (r1, s1)"
    by (cases "startSubscription w rawUrl (ctx_subject c) (ctx_sink c) k s")
  have inv1: "tableInvariant w s1" using startSubscription_table [OF Cons.prems(1) st] .
  show ?case
  proof (cases r1)
    case (Inl e)
    then show ?thesis using Cons.prems(2) x st inv1 by simp
  next
    case (Inr u)
    then show ?thesis using Cons.prems(2) x st Cons.IH [OF inv1] by simp
  qed
qed

lemma restartReplyHandlers_table:
  "tableInvariant w s \<Longrightarrow> restartReplyHandlers w rawUrl xs s = (r, s') \<Longrightarrow> tableInvariant w s'"
proof (induction xs arbitrary: s)
  case Nil
  then show ?case by simp
next
  case (Cons x xs)
  obtain k c where x: "x = (k, c)" by (cases x)
  obtain r1 s1 where st: "startReplyHandler w rawUrl (ctx_subject c) (ctx_template c)
      (ctx_payload c) (ctx_sink c) k (ctx_headers c) s = (r1, s1)"
    by (cases "startReplyHandler w rawUrl (ctx_subject c) (ctx_template c)
      (ctx_payload c) (ctx_sink c) k (ctx_headers c) s")
  have inv1: "tableInvariant w s1" using startReplyHandler_table [OF Cons.prems(1) st] .
  show ?case
  proof (cases r1)
    case (Inl e)
    then show ?thesis using Cons.prems(2) x st inv1 by simp
  next
    case (Inr u)
    then show ?thesis using Cons.prems(2) x st Cons.IH [OF inv1] by simp
  qed
qed

lemma reconnectConnection_table:
  assumes inv: "tableInvariant w s"
    and run: "reconnectConnection w serverKey s = (r, s')"
  shows "tableInvariant w s'"
proof (cases "map_of (connections s) serverKey")
  case None
  then show ?thesis using inv run by (simp add: reconnectConnection_def)
next
  case (Some existing)
  note entry = Some
  note normal = tableInvariant_lookup [OF inv entry]
  show ?thesis
  proof (cases "buildConnectOptions w (mc_rawUrl existing)")
    case (Inl e)
    then show ?thesis using inv run entry by (simp add: reconnectConnection_def Let_def)
  next
    case (Inr options)
    note opts = Inr
    show ?thesis
    proof (cases "w_connector w (events s) options")
      case (Inl e)
      then show ?thesis using inv run entry opts by (auto simp: reconnectConnection_def Let_def)
    next
      case (Inr newConnection)
      let ?subs = "boundTo serverKey (subscriptions s)"
      let ?reps = "boundTo serverKey (replies s)"
      let ?s3 = "stopReplyHandlers ?reps
          (stopSubscriptions ?subs (record_event (ConnectCall options) s))"
      let ?s4 = "record_event (CloseCall (nc_id (mc_connection existing))) ?s3"
      let ?managed = "\<lparr>mc_serverKey = serverKey, mc_rawUrl = mc_rawUrl existing,
          mc_connection = newConnection, mc_markedClosed = False\<rparr>"
      let ?s5 = "?s4\<lparr>connections := AList.update serverKey ?managed (connections ?s4)\<rparr>"
      have inv4: "tableInvariant w ?s4"
        using inv by (simp add: tableInvariant_def record_event_def)
      then have inv5: "tableInvariant w ?s5"
        using normal by (auto simp: tableInvariant_def intro!: list_all_update)
      have unfolded: "reconnectConnection w serverKey s =
          (case w_close w (events ?s3) (mc_connection existing) of
             Some e \<Rightarrow> (Inl e, ?s4)
           | None \<Rightarrow>
               (case restartSubscriptions w (mc_rawUrl existing) ?subs ?s5 of
                  (Inl e, s6) \<Rightarrow> (Inl e, s6)
                | (Inr u, s6) \<Rightarrow>
                    (case restartReplyHandlers w (mc_rawUrl existing) ?reps s6 of
                       (Inl e, s7) \<Rightarrow> (Inl e, s7)
                     | (Inr u', s7) \<Rightarrow> (Inr (int (length ?subs) + int (length ?reps)), s7))))"
        using entry opts Inr unfolding reconnectConnection_def Let_def by simp
      show ?thesis
      proof (cases "w_close w (events ?s3) (mc_connection existing)")
        case (Some e)
        then show ?thesis using run unfolded inv4 by auto
      next
        case None
        obtain r6 s6 where r6: "restartSubscriptions w (mc_rawUrl existing) ?subs ?s5 = (r6, s6)"
          by (cases "restartSubscriptions w (mc_rawUrl existing) ?subs ?s5")
        have inv6: "tableInvariant w s6" using restartSubscriptions_table [OF inv5 r6] .
        obtain r7 s7 where r7: "restartReplyHandlers w (mc_rawUrl existing) ?reps s6 = (r7, s7)"
          by (cases "restartReplyHandlers w (mc_rawUrl existing) ?reps s6")
        have inv7: "tableInvariant w s7" using restartReplyHandlers_table [OF inv6 r7] .
        show ?thesis
          using run unfolded None r6 r7 inv6 inv7
          by (cases r6; cases r7) auto
      qed
    qed
  qed
qed

lemma markConnectionClosed_table:
  "tableInvariant w s \<Longrightarrow> tableInvariant w (markConnectionClosed serverKey s)"
proof (cases "map_of (connections s) serverKey")
  case None
  assume "tableInvariant w s"
  then show ?thesis using None by (simp add: markConnectionClosed_def)
next
  case (Some m)
  assume inv: "tableInvariant w s"
  then show ?thesis
    using Some tableInvariant_lookup [OF inv Some]
    by (auto simp: markConnectionClosed_def tableInvariant_def intro!: list_all_update)
qed

lemma appendLogBlock_table [simp]:
  "tableInvariant w (snd (appendLogBlock w sink block separator s)) = tableInvariant w s"
  by (simp add: appendLogBlock_def split: option.splits)

lemma pullNotice_table [simp]:
  "tableInvariant w (snd (pullNotice w prefix stream durable sink title body s))
     = tableInvariant w s"
  by (simp add: pullNotice_def split: sum.splits)

lemma pullLoop_table:
  "tableInvariant w s \<Longrightarrow>
   tableInvariant w (snd (pullLoop w connection prefix stream durable sink msgs s))"
  by (induction msgs arbitrary: s)
    (simp_all add: Let_def markConnectionClosed_table appendLogBlock_def
      split: sum.splits option.splits prod.splits)

lemma pullAttempt_table:
  "tableInvariant w s \<Longrightarrow>
   tableInvariant w (snd (pullAttempt w connection js prefix stream durable batchSize expires
      sink s))"
proof -
  assume inv: "tableInvariant w s"
  have loop: "\<And>msgs s0 r0 s1. pullLoop w connection prefix stream durable sink msgs s0 = (r0, s1)
      \<Longrightarrow> tableInvariant w s0 \<Longrightarrow> tableInvariant w s1"
    using pullLoop_table by (metis snd_conv)
  show ?thesis
    using inv
    by (auto simp: pullAttempt_def Let_def dest: loop
        split: sum.splits option.splits prod.splits)
qed

lemma pullJetStream_table:
  "tableInvariant w s \<Longrightarrow> pullJetStream w serverUrl stream durable options sink s = (r, s')
     \<Longrightarrow> tableInvariant w s'"
proof -
  assume inv: "tableInvariant w s"
    and run: "pullJetStream w serverUrl stream durable options sink s = (r, s')"
  obtain g s1 where g: "getConnection w serverUrl s = (g, s1)"
    by (cases "getConnection w serverUrl s")
  have inv1: "tableInvariant w s1" using getConnection_table [OF inv g] .
  have attempt: "\<And>c js p b x s0 r0 s2.
      pullAttempt w c js p stream durable b x sink s0 = (r0, s2)
      \<Longrightarrow> tableInvariant w s0 \<Longrightarrow> tableInvariant w s2"
    using pullAttempt_table by (metis snd_conv)
  have notice: "\<And>p title body s0 r0 s2.
      pullNotice w p stream durable sink title body s0 = (r0, s2)
      \<Longrightarrow> tableInvariant w s2 = tableInvariant w s0"
    using pullNotice_table by (metis snd_conv)
  show ?thesis
  proof (cases g)
    case (Inl e)
    then show ?thesis using run g inv1 by (simp add: pullJetStream_def)
  next
    case (Inr c)
    show ?thesis
    proof (cases "nc_jetstream (mc_connection c)")
      case False
      then show ?thesis using run g Inr inv1 by (auto simp: pullJetStream_def Let_def)
    next
      case True
      show ?thesis
      proof (cases "w_jetstream w (events s1) (mc_connection c)")
        case (Inl e)
        then show ?thesis using run g Inr True inv1 by (auto simp: pullJetStream_def Let_def)
      next
        case js: (Inr js)
        let ?s2 = "record_event (JetstreamCall (nc_id (mc_connection c))) s1"
        obtain r0 s3 where a: "pullAttempt w c js (connectionInfo (mc_connection c)) stream durable
            (max 1 (pull_batchSize options)) (max 1000 (pull_timeoutMs options)) sink ?s2 = (r0, s3)"
          by (cases "pullAttempt w c js (connectionInfo (mc_connection c)) stream durable
            (max 1 (pull_batchSize options)) (max 1000 (pull_timeoutMs options)) sink ?s2")
        have inv3: "tableInvariant w s3" using attempt [OF a] inv1 by simp
        show ?thesis
          using run g Inr True js a inv3
          by (auto simp: pullJetStream_def Let_def dest!: notice split: sum.splits)
      qed
    qed
  qed
qed

lemma reset_table: "tableInvariant w (reset w s)"
  by (simp add: reset_def Let_def tableInvariant_def)

text \<open>Every state that a session reaches from the empty one by operations run one at a
  time satisfies both invariants. (\<open>sendRequest\<close> and \<open>publish\<close> change the session only by acquiring
  the connection, which is the step \<open>acquire\<close>.)\<close>

theorem in_turn_invariant:
  "reachableInTurn w s \<Longrightarrow> sessionInvariant s \<and> tableInvariant w s"
proof (induction rule: reachableInTurn.induct)
  case fresh
  have "tableInvariant w emptySession" by (simp add: tableInvariant_def emptySession_def)
  then show ?case using sessionInvariant_empty by simp
next
  case (acquire s rawUrl)
  obtain r s' where g: "getConnection w rawUrl s = (r, s')" by (cases "getConnection w rawUrl s")
  show ?case
    using acquire.IH g getConnection_contexts [OF g] getConnection_table [OF _ g]
    by (simp add: sessionInvariant_def)
next
  case (startSub s serverUrl subject sink key)
  obtain r s' where g: "startSubscription w serverUrl subject sink key s = (r, s')"
    by (cases "startSubscription w serverUrl subject sink key s")
  show ?case
    using startSub.IH g startSubscription_invariant [OF _ g] startSubscription_table [OF _ g]
    by simp
next
  case (stopSub s key)
  then show ?case
    by (simp add: stopSubscription_invariant tableInvariant_frame [of "stopSubscription key s" s])
next
  case (startReply s serverUrl subject template payload sink key hdrs)
  obtain r s' where
    g: "startReplyHandler w serverUrl subject template payload sink key hdrs s = (r, s')"
    by (cases "startReplyHandler w serverUrl subject template payload sink key hdrs s")
  show ?case
    using startReply.IH g startReplyHandler_invariant [OF _ g] startReplyHandler_table [OF _ g]
    by simp
next
  case (stopReply s key)
  then show ?case
    by (simp add: stopReplyHandler_invariant tableInvariant_frame [of "stopReplyHandler key s" s])
next
  case (pull s serverUrl stream durable options sink)
  obtain r s' where g: "pullJetStream w serverUrl stream durable options sink s = (r, s')"
    by (cases "pullJetStream w serverUrl stream durable options sink s")
  show ?case
    using pull.IH g pullJetStream_invariant [OF _ g] pullJetStream_table [OF _ g]
    by simp
next
  case (mark s serverKey)
  then show ?case by (simp add: markConnectionClosed_table)
next
  case (reconnect s serverKey)
  obtain r s' where g: "reconnectConnection w serverKey s = (r, s')"
    by (cases "reconnectConnection w serverKey s")
  show ?case
    using reconnect.IH g reconnectConnection_invariant [OF _ g] reconnectConnection_table [OF _ g]
    by simp
next
  case (reset s)
  then show ?case by (simp add: reset_invariant reset_table)
qed

lemma activeSession_in_turn: "reachableInTurn steadyWorld activeSession"
  using reachableInTurn.startReply [OF reachableInTurn.startSub [OF reachableInTurn.fresh],
      of steadyWorld "''nats://demo''" "''lab.greet''" "Some ''Hello''" None 0 "''reply-key''"
         None "''nats://demo''" "''lab.metrics''" 0 "''sub-key''"]
  by (simp add: activeSession_reached)

theorem in_turn_invariant_witness:
  "reachableInTurn steadyWorld activeSession
   \<and> sessionInvariant activeSession \<and> tableInvariant steadyWorld activeSession"
  using activeSession_in_turn in_turn_invariant [OF activeSession_in_turn] by simp

subsection \<open>Sessions whose calls overlap\<close>

text \<open>The steps of \<open>reachable\<close> keep the keys of the maps distinct, each counter at least
  the number of contexts of its pair, and each table entry under the normal form of its
  raw URL.\<close>

lemma contextsOf_update_le:
  "contextsOf (AList.update key c store) k
     \<le> contextsOf store k + (if pairKey c = k then 1 else 0)"
  by (induction store) (auto simp: contextsOf_def)

lemma countOf_increment:
  "countOf (incrementCount counts server subject) k
     = countOf counts k + (if k = subjectKey server subject then 1 else 0)"
  by (simp add: incrementCount_def Let_def countOf_def update_conv')

lemma register_cover:
  assumes cover: "countsCover store counts"
  shows "countsCover (AList.update key c store)
           (incrementCount counts (ctx_server c) (ctx_subject c))"
proof -
  have "\<And>k. int (contextsOf (AList.update key c store) k)
      \<le> countOf (incrementCount counts (ctx_server c) (ctx_subject c)) k"
  proof -
    fix k
    have "int (contextsOf (AList.update key c store) k)
        \<le> int (contextsOf store k) + (if pairKey c = k then 1 else 0)"
      using contextsOf_update_le [of key c store k] by (simp split: if_splits)
    also have "\<dots> \<le> countOf counts k + (if pairKey c = k then 1 else 0)"
      using cover by (simp add: countsCover_def)
    finally show "int (contextsOf (AList.update key c store) k)
        \<le> countOf (incrementCount counts (ctx_server c) (ctx_subject c)) k"
      by (auto simp: countOf_increment pairKey_def)
  qed
  then show ?thesis
    using cover unfolding countsCover_def incrementCount_def Let_def
    by (auto simp: distinct_update)
qed

lemma stop_cover:
  assumes cover: "countsCover store counts"
    and stop: "stopContext store key counts evs = (store', counts', evs')"
  shows "countsCover store' counts'"
proof (cases "map_of store key")
  case None
  then show ?thesis using cover stop by (simp add: stopContext_def)
next
  case (Some c)
  have ds: "distinct (map fst store)" and dc: "distinct (map fst counts)"
    and le: "\<And>k. int (contextsOf store k) \<le> countOf counts k"
    using cover by (auto simp: countsCover_def)
  have store': "store' = AList.delete key store"
    and counts': "counts' = decrementCount counts (ctx_server c) (ctx_subject c)"
    using stop Some by (simp_all add: stopContext_def)
  have "\<And>k. int (contextsOf store' k) \<le> countOf counts' k"
  proof -
    fix k
    have ck: "contextsOf store k = contextsOf store' k + (if pairKey c = k then 1 else 0)"
      using contextsOf_delete [OF ds Some, of k] store' by simp
    show "int (contextsOf store' k) \<le> countOf counts' k"
    proof (cases "k = pairKey c")
      case True
      then show ?thesis
        using ck le [of k] decrementCount_countOf [of counts "ctx_server c" "ctx_subject c"]
        unfolding counts' by (simp add: pairKey_def)
    next
      case False
      then have "countOf counts' k = countOf counts k"
        unfolding counts' decrementCount_def Let_def
        by (auto simp: countOf_def update_conv' delete_conv' pairKey_def)
      then show ?thesis using ck le [of k] False by simp
    qed
  qed
  then show ?thesis
    using ds dc unfolding countsCover_def store' counts' decrementCount_def Let_def
    by (auto simp: distinct_delete distinct_update)
qed

lemma sessionCovered_empty: "sessionCovered emptySession"
  by (simp add: sessionCovered_def emptySession_def countsCover_def contextsOf_def countOf_def)

lemma sessionCovered_frame:
  "subscriptions s' = subscriptions s \<Longrightarrow> replies s' = replies s \<Longrightarrow>
   subscriptionCounts s' = subscriptionCounts s \<Longrightarrow> replyCounts s' = replyCounts s \<Longrightarrow>
   sessionCovered s' = sessionCovered s"
  by (simp add: sessionCovered_def)

lemma registerSubscription_covered:
  "sessionCovered s \<Longrightarrow> sessionCovered (registerSubscription w subject sink key connection s)"
  using register_cover [of "subscriptions s" "subscriptionCounts s" key
      "\<lparr>ctx_subject = subject, ctx_server = mc_serverKey connection,
        ctx_subscription = w_subscribe w (events s) (mc_connection connection) subject,
        ctx_sink = sink, ctx_template = None, ctx_payload = None, ctx_headers = None\<rparr>"]
  by (simp add: sessionCovered_def registerSubscription_def Let_def record_event_def)

lemma registerReplyHandler_covered:
  "sessionCovered s \<Longrightarrow>
   sessionCovered (registerReplyHandler w subject template payload sink key hdrs connection s)"
  using register_cover [of "replies s" "replyCounts s" key
      "\<lparr>ctx_subject = subject, ctx_server = mc_serverKey connection,
        ctx_subscription = w_subscribe w (events s) (mc_connection connection) subject,
        ctx_sink = sink, ctx_template = template, ctx_payload = payload, ctx_headers = hdrs\<rparr>"]
  by (simp add: sessionCovered_def registerReplyHandler_def Let_def record_event_def)

lemma stopSubscription_covered: "sessionCovered s \<Longrightarrow> sessionCovered (stopSubscription key s)"
proof -
  assume cov: "sessionCovered s"
  obtain store counts evs where
    st: "stopContext (subscriptions s) key (subscriptionCounts s) (events s) = (store, counts, evs)"
    by (cases "stopContext (subscriptions s) key (subscriptionCounts s) (events s)")
  show ?thesis
    using cov stop_cover [OF _ st] st by (simp add: sessionCovered_def stopSubscription_def)
qed

lemma stopReplyHandler_covered: "sessionCovered s \<Longrightarrow> sessionCovered (stopReplyHandler key s)"
proof -
  assume cov: "sessionCovered s"
  obtain store counts evs where
    st: "stopContext (replies s) key (replyCounts s) (events s) = (store, counts, evs)"
    by (cases "stopContext (replies s) key (replyCounts s) (events s)")
  show ?thesis
    using cov stop_cover [OF _ st] st by (simp add: sessionCovered_def stopReplyHandler_def)
qed

lemma registerSubscription_connections [simp]:
  "connections (registerSubscription w subject sink key connection s) = connections s"
  by (simp add: registerSubscription_def Let_def record_event_def)

lemma registerReplyHandler_connections [simp]:
  "connections (registerReplyHandler w subject template payload sink key hdrs connection s)
     = connections s"
  by (simp add: registerReplyHandler_def Let_def record_event_def)

theorem reachable_invariant:
  "reachable w s \<Longrightarrow> sessionCovered s \<and> tableInvariant w s"
proof (induction rule: reachable.induct)
  case fresh
  have "tableInvariant w emptySession" by (simp add: tableInvariant_def emptySession_def)
  then show ?case using sessionCovered_empty by simp
next
  case (emit s e)
  have "sessionCovered (record_event e s) = sessionCovered s"
    by (simp add: sessionCovered_def record_event_def)
  then show ?case using emit by simp
next
  case (install s m)
  have "tableInvariant w (s\<lparr>connections := AList.update (mc_serverKey m) m (connections s)\<rparr>)"
    using install by (auto simp: tableInvariant_def intro!: list_all_update)
  then show ?case using install by (simp add: sessionCovered_def)
next
  case (mark s serverKey)
  then show ?case
    using sessionCovered_frame [of "markConnectionClosed serverKey s" s]
    by (simp add: markConnectionClosed_table)
next
  case (clear s)
  then show ?case by (simp add: sessionCovered_def tableInvariant_def)
next
  case (registerSub s subject sink key connection)
  then show ?case
    using tableInvariant_frame [of "registerSubscription w subject sink key connection s" s w]
    by (simp add: registerSubscription_covered)
next
  case (registerReply s subject template payload sink key hdrs connection)
  then show ?case
    using tableInvariant_frame
      [of "registerReplyHandler w subject template payload sink key hdrs connection s" s w]
    by (simp add: registerReplyHandler_covered)
next
  case (stopSub s key)
  then show ?case
    by (simp add: stopSubscription_covered tableInvariant_frame [of "stopSubscription key s" s])
next
  case (stopReply s key)
  then show ?case
    by (simp add: stopReplyHandler_covered tableInvariant_frame [of "stopReplyHandler key s" s])
qed

lemma reachable_registered_counted:
  assumes "reachable w s"
  shows "map_of (subscriptions s) key = Some c \<Longrightarrow>
           1 \<le> countOf (subscriptionCounts s) (pairKey c)"
    and "map_of (replies s) key = Some c \<Longrightarrow> 1 \<le> countOf (replyCounts s) (pairKey c)"
proof -
  have cov: "sessionCovered s" using reachable_invariant [OF assms] by simp
  show "map_of (subscriptions s) key = Some c \<Longrightarrow>
           1 \<le> countOf (subscriptionCounts s) (pairKey c)"
  proof -
    assume reg: "map_of (subscriptions s) key = Some c"
    have "int (contextsOf (subscriptions s) (pairKey c)) \<le> countOf (subscriptionCounts s) (pairKey c)"
      using cov by (simp add: sessionCovered_def countsCover_def)
    then show ?thesis using contextsOf_registered [OF reg] by linarith
  qed
  show "map_of (replies s) key = Some c \<Longrightarrow> 1 \<le> countOf (replyCounts s) (pairKey c)"
  proof -
    assume reg: "map_of (replies s) key = Some c"
    have "int (contextsOf (replies s) (pairKey c)) \<le> countOf (replyCounts s) (pairKey c)"
      using cov by (simp add: sessionCovered_def countsCover_def)
    then show ?thesis using contextsOf_registered [OF reg] by linarith
  qed
qed


text \<open>Every operation of the session, run from its call to its return, is a sequence of
  the steps of \<open>reachable\<close>.\<close>

lemma reachable_getConnection:
  assumes r: "reachable w s"
  shows "reachable w (snd (getConnection w rawUrl s))"
proof (cases "normalizeServerUrl w rawUrl")
  case (Inl e)
  then show ?thesis using r by (simp add: getConnection_def)
next
  case key: (Inr serverKey)
  show ?thesis
  proof (cases "map_of (connections s) serverKey")
    case (Some existing)
    then show ?thesis using r key by (simp add: getConnection_def)
  next
    case None
    show ?thesis
    proof (cases "buildConnectOptions w rawUrl")
      case (Inl e)
      then show ?thesis using r key None by (simp add: getConnection_def)
    next
      case opts: (Inr options)
      have r1: "reachable w (record_event (ConnectCall options) s)"
        using r by (rule reachable.emit)
      show ?thesis
      proof (cases "w_connector w (events s) options")
        case (Inl e)
        then show ?thesis using r1 key None opts by (simp add: getConnection_def)
      next
        case (Inr connection)
        let ?m = "\<lparr>mc_serverKey = serverKey, mc_rawUrl = rawUrl,
                   mc_connection = connection, mc_markedClosed = False\<rparr>"
        have "reachable w ((record_event (ConnectCall options) s)
                \<lparr>connections := AList.update (mc_serverKey ?m) ?m
                    (connections (record_event (ConnectCall options) s))\<rparr>)"
          using r1 key by (intro reachable.install) simp_all
        then show ?thesis
          using key None opts Inr by (simp add: getConnection_def Let_def)
      qed
    qed
  qed
qed

lemma reachable_startSubscription:
  assumes r: "reachable w s"
  shows "reachable w (snd (startSubscription w serverUrl subject sink key s))"
proof (cases "isSubscribed s key")
  case True
  then show ?thesis using r by (simp add: startSubscription_segments)
next
  case False
  obtain g s1 where g: "getConnection w serverUrl s = (g, s1)"
    by (cases "getConnection w serverUrl s")
  have r1: "reachable w s1" using reachable_getConnection [OF r, of serverUrl] g by simp
  show ?thesis
    using False g r1 reachable.registerSub [OF r1]
    by (cases g) (simp_all add: startSubscription_segments)
qed

lemma reachable_startReplyHandler:
  assumes r: "reachable w s"
  shows "reachable w
    (snd (startReplyHandler w serverUrl subject template payload sink key hdrs s))"
proof (cases "isReplyHandlerActive s key")
  case True
  then show ?thesis using r by (simp add: startReplyHandler_segments)
next
  case False
  obtain g s1 where g: "getConnection w serverUrl s = (g, s1)"
    by (cases "getConnection w serverUrl s")
  have r1: "reachable w s1" using reachable_getConnection [OF r, of serverUrl] g by simp
  show ?thesis
    using False g r1 reachable.registerReply [OF r1]
    by (cases g) (simp_all add: startReplyHandler_segments)
qed

lemma reachable_stopSubscriptions:
  "reachable w s \<Longrightarrow> reachable w (stopSubscriptions entries s)"
  by (induction entries s rule: stopSubscriptions.induct) (simp_all add: reachable.stopSub)

lemma reachable_stopReplyHandlers:
  "reachable w s \<Longrightarrow> reachable w (stopReplyHandlers entries s)"
  by (induction entries s rule: stopReplyHandlers.induct) (simp_all add: reachable.stopReply)

lemma reachable_restartSubscriptions:
  "reachable w s \<Longrightarrow> reachable w (snd (restartSubscriptions w rawUrl entries s))"
proof (induction entries arbitrary: s)
  case Nil
  then show ?case by simp
next
  case (Cons p entries)
  obtain key c where p: "p = (key, c)" by (cases p)
  obtain g s1 where g: "startSubscription w rawUrl (ctx_subject c) (ctx_sink c) key s = (g, s1)"
    by (cases "startSubscription w rawUrl (ctx_subject c) (ctx_sink c) key s")
  have r1: "reachable w s1"
    using reachable_startSubscription [OF Cons.prems, of rawUrl "ctx_subject c" "ctx_sink c" key] g
    by simp
  show ?case
    using p g r1 Cons.IH [OF r1] by (cases g) simp_all
qed

lemma reachable_restartReplyHandlers:
  "reachable w s \<Longrightarrow> reachable w (snd (restartReplyHandlers w rawUrl entries s))"
proof (induction entries arbitrary: s)
  case Nil
  then show ?case by simp
next
  case (Cons p entries)
  obtain key c where p: "p = (key, c)" by (cases p)
  obtain g s1 where g: "startReplyHandler w rawUrl (ctx_subject c) (ctx_template c)
      (ctx_payload c) (ctx_sink c) key (ctx_headers c) s = (g, s1)"
    by (cases "startReplyHandler w rawUrl (ctx_subject c) (ctx_template c)
      (ctx_payload c) (ctx_sink c) key (ctx_headers c) s")
  have r1: "reachable w s1"
    using reachable_startReplyHandler [OF Cons.prems, of rawUrl "ctx_subject c" "ctx_template c"
        "ctx_payload c" "ctx_sink c" key "ctx_headers c"] g
    by simp
  show ?case
    using p g r1 Cons.IH [OF r1] by (cases g) simp_all
qed

lemma stopSubscriptions_connections [simp]:
  "connections (stopSubscriptions entries s) = connections s"
  by (induction entries s rule: stopSubscriptions.induct)
    (simp_all add: stopSubscription_def split: prod.splits)

lemma stopReplyHandlers_connections [simp]:
  "connections (stopReplyHandlers entries s) = connections s"
  by (induction entries s rule: stopReplyHandlers.induct)
    (simp_all add: stopReplyHandler_def split: prod.splits)

lemma reachable_reconnectConnection:
  assumes r: "reachable w s"
  shows "reachable w (snd (reconnectConnection w serverKey s))"
proof (cases "map_of (connections s) serverKey")
  case None
  then show ?thesis using r by (simp add: reconnectConnection_def)
next
  case (Some existing)
  have normal: "normalizeServerUrl w (mc_rawUrl existing) = Inr serverKey"
    using reachable_invariant [OF r] tableInvariant_lookup [OF _ Some] by simp
  show ?thesis
  proof (cases "buildConnectOptions w (mc_rawUrl existing)")
    case (Inl e)
    then show ?thesis using r Some by (simp add: reconnectConnection_def Let_def)
  next
    case opts: (Inr options)
    let ?s1 = "record_event (ConnectCall options) s"
    have r1: "reachable w ?s1" using r by (rule reachable.emit)
    show ?thesis
    proof (cases "w_connector w (events s) options")
      case (Inl e)
      then show ?thesis using r1 Some opts by (simp add: reconnectConnection_def Let_def)
    next
      case conn: (Inr newConnection)
      let ?s3 = "stopReplyHandlers (boundTo serverKey (replies s))
                   (stopSubscriptions (boundTo serverKey (subscriptions s)) ?s1)"
      let ?s4 = "record_event (CloseCall (nc_id (mc_connection existing))) ?s3"
      have r4: "reachable w ?s4"
        by (rule reachable.emit, rule reachable_stopReplyHandlers,
            rule reachable_stopSubscriptions, rule r1)
      show ?thesis
      proof (cases "w_close w (events ?s3) (mc_connection existing)")
        case (Some e)
        then show ?thesis
          using r4 \<open>map_of (connections s) serverKey = Some existing\<close> opts conn
          by (simp add: reconnectConnection_def Let_def)
      next
        case None
        let ?m = "\<lparr>mc_serverKey = serverKey, mc_rawUrl = mc_rawUrl existing,
                   mc_connection = newConnection, mc_markedClosed = False\<rparr>"
        let ?s5 = "?s4\<lparr>connections := AList.update serverKey ?m (connections ?s4)\<rparr>"
        have "reachable w (?s4\<lparr>connections := AList.update (mc_serverKey ?m) ?m (connections ?s4)\<rparr>)"
          using r4 normal by (intro reachable.install) simp_all
        then have r5: "reachable w ?s5" by simp
        obtain g6 s6 where g6: "restartSubscriptions w (mc_rawUrl existing)
            (boundTo serverKey (subscriptions s)) ?s5 = (g6, s6)"
          by (cases "restartSubscriptions w (mc_rawUrl existing)
            (boundTo serverKey (subscriptions s)) ?s5")
        have r6: "reachable w s6"
          using reachable_restartSubscriptions [OF r5, of "mc_rawUrl existing"
              "boundTo serverKey (subscriptions s)"] g6 by simp
        obtain g7 s7 where g7: "restartReplyHandlers w (mc_rawUrl existing)
            (boundTo serverKey (replies s)) s6 = (g7, s7)"
          by (cases "restartReplyHandlers w (mc_rawUrl existing)
            (boundTo serverKey (replies s)) s6")
        have r7: "reachable w s7"
          using reachable_restartReplyHandlers [OF r6, of "mc_rawUrl existing"
              "boundTo serverKey (replies s)"] g7 by simp
        have "snd (reconnectConnection w serverKey s) = s6 \<or>
              snd (reconnectConnection w serverKey s) = s7"
          using \<open>map_of (connections s) serverKey = Some existing\<close> opts conn None g6 g7
          unfolding reconnectConnection_def Let_def
          by (cases g6; cases g7) simp_all
        then show ?thesis using r6 r7 by auto
      qed
    qed
  qed
qed

lemma reachable_closeAll: "reachable w s \<Longrightarrow> reachable w (closeAll w table s)"
  by (induction w table s rule: closeAll.induct) (simp_all add: reachable.emit)

lemma reachable_reset: "reachable w s \<Longrightarrow> reachable w (reset w s)"
  unfolding reset_def Let_def
  by (intro reachable.clear reachable_closeAll reachable_stopReplyHandlers
      reachable_stopSubscriptions)

lemma reachable_appendLogBlock:
  "reachable w s \<Longrightarrow> reachable w (snd (appendLogBlock w sink block separator s))"
  by (simp add: appendLogBlock_def reachable.emit split: option.splits)

lemma reachable_pullNotice:
  "reachable w s \<Longrightarrow> reachable w (snd (pullNotice w prefix stream durable sink title body s))"
  by (simp add: pullNotice_def reachable_appendLogBlock split: sum.splits)

lemma reachable_pullLoop:
  "reachable w s \<Longrightarrow>
   reachable w (snd (pullLoop w connection prefix stream durable sink msgs s))"
  by (induction msgs arbitrary: s)
    (simp_all add: Let_def appendLogBlock_def reachable.emit reachable.mark
      split: sum.splits option.splits prod.splits)

lemma reachable_pullAttempt:
  assumes r: "reachable w s"
  shows "reachable w (snd (pullAttempt w connection js prefix stream durable batchSize expires
      sink s))"
proof -
  have loop: "\<And>msgs s0 r0 s1. pullLoop w connection prefix stream durable sink msgs s0 = (r0, s1)
      \<Longrightarrow> reachable w s0 \<Longrightarrow> reachable w s1"
    using reachable_pullLoop by (metis snd_conv)
  show ?thesis
    using r
    by (auto simp: pullAttempt_def Let_def dest: loop
        intro!: reachable_pullNotice reachable.emit
        split: sum.splits option.splits prod.splits)
qed

lemma reachable_pullJetStream:
  assumes r: "reachable w s"
  shows "reachable w (snd (pullJetStream w serverUrl stream durable options sink s))"
proof -
  obtain g s1 where g: "getConnection w serverUrl s = (g, s1)"
    by (cases "getConnection w serverUrl s")
  have r1: "reachable w s1" using reachable_getConnection [OF r, of serverUrl] g by simp
  show ?thesis
  proof (cases g)
    case (Inl e)
    then show ?thesis using g r1 by (simp add: pullJetStream_def)
  next
    case (Inr c)
    let ?s2 = "record_event (JetstreamCall (nc_id (mc_connection c))) s1"
    have r2: "reachable w ?s2" using r1 by (rule reachable.emit)
    show ?thesis
    proof (cases "nc_jetstream (mc_connection c)")
      case False
      then show ?thesis using g Inr r1 by (simp add: pullJetStream_def Let_def)
    next
      case True
      show ?thesis
      proof (cases "w_jetstream w (events s1) (mc_connection c)")
        case (Inl e)
        then show ?thesis using g Inr True r2 by (simp add: pullJetStream_def Let_def)
      next
        case js: (Inr js)
        obtain r0 s3 where a: "pullAttempt w c js (connectionInfo (mc_connection c)) stream durable
            (max 1 (pull_batchSize options)) (max 1000 (pull_timeoutMs options)) sink ?s2 = (r0, s3)"
          by (cases "pullAttempt w c js (connectionInfo (mc_connection c)) stream durable
            (max 1 (pull_batchSize options)) (max 1000 (pull_timeoutMs options)) sink ?s2")
        have r3: "reachable w s3"
          using reachable_pullAttempt [OF r2, of c js "connectionInfo (mc_connection c)" stream
              durable "max 1 (pull_batchSize options)" "max 1000 (pull_timeoutMs options)" sink] a
          by simp
        show ?thesis
          using g Inr True js a r3
            reachable_pullNotice [OF r3, of "connectionInfo (mc_connection c)" stream durable sink]
          by (cases r0) (simp_all add: pullJetStream_def Let_def)
      qed
    qed
  qed
qed

text \<open>So every state reached by operations run one at a time is reached by the steps, and
  the state that two overlapping starts leave is reached by the steps but not by
  operations run one at a time.\<close>

lemma in_turn_reachable: "reachableInTurn w s \<Longrightarrow> reachable w s"
proof (induction rule: reachableInTurn.induct)
  case fresh
  show ?case by (rule reachable.fresh)
next
  case (acquire s rawUrl)
  then show ?case by (simp add: reachable_getConnection)
next
  case (startSub s serverUrl subject sink key)
  then show ?case by (simp add: reachable_startSubscription)
next
  case (stopSub s key)
  then show ?case by (simp add: reachable.stopSub)
next
  case (startReply s serverUrl subject template payload sink key hdrs)
  then show ?case by (simp add: reachable_startReplyHandler)
next
  case (stopReply s key)
  then show ?case by (simp add: reachable.stopReply)
next
  case (pull s serverUrl stream durable options sink)
  then show ?case by (simp add: reachable_pullJetStream)
next
  case (mark s serverKey)
  then show ?case by (simp add: reachable.mark)
next
  case (reconnect s serverKey)
  then show ?case by (simp add: reachable_reconnectConnection)
next
  case (reset s)
  then show ?case by (simp add: reachable_reset)
qed

lemma connectedSession_reached:
  "snd (getConnection steadyWorld ''nats://demo'' emptySession) = connectedSession"
  by code_simp

lemma overlappedSession_reachable: "reachable steadyWorld overlappedSession"
proof -
  have "reachable steadyWorld connectedSession"
    using reachable_getConnection [OF reachable.fresh, of steadyWorld "''nats://demo''"]
    by (simp add: connectedSession_reached)
  then show ?thesis
    unfolding overlappedSession_def by (intro reachable.registerSub)
qed

lemma overlappedSession_not_in_turn: "\<not> reachableInTurn steadyWorld overlappedSession"
proof
  assume "reachableInTurn steadyWorld overlappedSession"
  then have "countsAgree (subscriptions overlappedSession) (subscriptionCounts overlappedSession)"
    using in_turn_invariant by (simp add: sessionInvariant_def)
  then have "countOf (subscriptionCounts overlappedSession) ''nats://demo|lab.metrics''
      = int (contextsOf (subscriptions overlappedSession) ''nats://demo|lab.metrics'')"
    by (rule countsAgree_countOf)
  moreover have "countOf (subscriptionCounts overlappedSession) ''nats://demo|lab.metrics'' = 2"
    "contextsOf (subscriptions overlappedSession) ''nats://demo|lab.metrics'' = 1"
    by code_simp+
  ultimately show False by simp
qed

theorem reachable_invariant_witness:
  "reachable steadyWorld overlappedSession
   \<and> sessionCovered overlappedSession \<and> tableInvariant steadyWorld overlappedSession"
  using overlappedSession_reachable reachable_invariant [OF overlappedSession_reachable] by simp

end
